theory Spec2Isabelle
  imports Main "HOL-Library.Word"
begin

unbundle bit_operations_syntax

section \<open>Checksum\<close>

text \<open>
  A Python \<open>bytes\<close> object is a sequence of integers in \<open>0..255\<close>: a list of
  8-bit words. Python's own integers are unbounded, so the accumulator of \<open>crc\<close> is
  an \<open>int\<close> and the masking with \<open>0xff\<close> is written out as in the source.
\<close>

type_synonym byte = "8 word"

definition crc :: "byte list \<Rightarrow> int" where
  "crc data = fold (\<lambda>i x. (x + uint i) AND 0xff) data 0 XOR 0xff"

section \<open>The serial channel\<close>

text \<open>
  The exceptions the program can meet. \<open>SerialTimeoutException\<close> is a subclass of
  \<open>SerialException\<close> in pyserial; the stages catch both and nothing else.
\<close>

datatype exn =
    SerialException
  | SerialTimeoutException
  | TypeError
  | ZeroDivisionError
  | OverflowError
  | UnboundLocalError
  | IndexError
  | AttributeError

definition is_serial_exn :: "exn \<Rightarrow> bool" where
  "is_serial_exn e = (e = SerialException \<or> e = SerialTimeoutException)"

datatype event = EvOpen | EvClose | EvWrite "byte list" | EvRead nat

text \<open>
  The port and the device behind it. The scripts say what the successive calls of
  \<open>open\<close>, \<open>write\<close> and \<open>read\<close> will meet: an \<open>open\<close> that succeeds or raises
  \<open>SerialException\<close>, a \<open>write\<close> that returns a byte count or raises, a \<open>read\<close>
  that returns the bytes that arrived before the timeout or raises. When a script is
  used up the port opens, a write returns the length of its data and a read times out
  with no bytes. \<open>trace\<close> records every call made on the port, in order.
\<close>

record serial =
  is_open :: bool
  open_script :: "bool list"
  write_script :: "(exn + nat) list"
  read_script :: "(exn + byte list) list"
  trace :: "event list"

type_synonym 'a io = "serial \<Rightarrow> serial \<times> (exn + 'a)"

definition io_return :: "'a \<Rightarrow> 'a io" where
  "io_return v s = (s, Inr v)"

definition io_raise :: "exn \<Rightarrow> 'a io" where
  "io_raise e s = (s, Inl e)"

definition io_bind :: "'a io \<Rightarrow> ('a \<Rightarrow> 'b io) \<Rightarrow> 'b io" where
  "io_bind m f s = (case m s of (s', Inl e) \<Rightarrow> (s', Inl e) | (s', Inr v) \<Rightarrow> f v s')"

text \<open>\<open>try: m except SerialTimeoutException / SerialException: h\<close>\<close>

definition except_serial :: "'a io \<Rightarrow> 'a io \<Rightarrow> 'a io" where
  "except_serial m h s =
     (case m s of
        (s', Inl e) \<Rightarrow> if is_serial_exn e then h s' else (s', Inl e)
      | (s', Inr v) \<Rightarrow> (s', Inr v))"

text \<open>What the next \<open>open\<close>, the next \<open>write\<close> of \<open>d\<close> and the next \<open>read\<close> of at most
  \<open>n\<close> bytes will meet.\<close>

definition next_open :: "serial \<Rightarrow> bool" where
  "next_open s = (case open_script s of [] \<Rightarrow> True | ok # rest \<Rightarrow> ok)"

definition next_write :: "serial \<Rightarrow> byte list \<Rightarrow> exn + nat" where
  "next_write s d = (case write_script s of [] \<Rightarrow> Inr (length d) | out # rest \<Rightarrow> out)"

definition next_read :: "serial \<Rightarrow> nat \<Rightarrow> exn + byte list" where
  "next_read s n =
     (case read_script s of
        [] \<Rightarrow> Inr []
      | out # rest \<Rightarrow> (case out of Inl e \<Rightarrow> Inl e | Inr r \<Rightarrow> Inr (take n r)))"

definition ser_open :: "unit io" where
  "ser_open s =
     (let s1 = s\<lparr>open_script := tl (open_script s), trace := trace s @ [EvOpen]\<rparr> in
      if next_open s then (s1\<lparr>is_open := True\<rparr>, Inr ())
      else (s1, Inl SerialException))"

definition ser_close :: "serial \<Rightarrow> serial" where
  "ser_close s = s\<lparr>is_open := False, trace := trace s @ [EvClose]\<rparr>"

text \<open>A write or a read on a port that is not open raises pyserial's
  \<open>PortNotOpenError\<close>, a \<open>SerialException\<close>.\<close>

definition ser_write :: "byte list \<Rightarrow> nat io" where
  "ser_write d s =
     (if \<not> is_open s then (s, Inl SerialException)
      else (s\<lparr>write_script := tl (write_script s), trace := trace s @ [EvWrite d]\<rparr>,
            next_write s d))"

definition ser_read :: "nat \<Rightarrow> byte list io" where
  "ser_read n s =
     (if \<not> is_open s then (s, Inl SerialException)
      else (s\<lparr>read_script := tl (read_script s), trace := trace s @ [EvRead n]\<rparr>,
            next_read s n))"

text \<open>The data of the \<open>write\<close> calls of a trace, in order.\<close>

definition writes_of :: "event list \<Rightarrow> byte list list" where
  "writes_of tr = concat (map (\<lambda>e. case e of EvWrite d \<Rightarrow> [d] | _ \<Rightarrow> []) tr)"

text \<open>\<open>if not ser.is_open: ser.open()\<close>\<close>

definition ensure_open :: "unit io" where
  "ensure_open s = (if \<not> is_open s then ser_open s else (s, Inr ()))"

section \<open>Protocol stages\<close>

text \<open>
  The stages \<open>_handshake\<close>, \<open>_get_version\<close>, \<open>_get_sector_size\<close>, \<open>_app_start\<close> and
  \<open>_flash_fw\<close> of the source (an Isabelle name cannot start with an underscore). The
  calls of \<open>debug\<close>, \<open>print\<close> and \<open>progress_bar\<close> only write to the terminal and are
  left out. Each branch gives the value the source returns there; a branch that falls
  through to the final \<open>return result\<close> gives the value \<open>result\<close> holds at that point.
\<close>

definition handshake_stage :: "bool io" where
  "handshake_stage =
     except_serial
       (io_bind ensure_open (\<lambda>_.
        io_bind (ser_write [0x75]) (\<lambda>n.
          if n = 0 then io_return False
          else
            io_bind (ser_read 1) (\<lambda>r.
              if length r > 0 \<and> r ! 0 = 0x75 then io_return True
              else io_return False))))
       (io_return False)"

text \<open>\<open>bytes(...).decode(encoding='latin')\<close>: byte \<open>b\<close> becomes the character with
  code point \<open>b\<close>.\<close>

definition decode_latin :: "byte list \<Rightarrow> string" where
  "decode_latin bs = map (\<lambda>b. char_of (unat b)) bs"

definition get_version_stage :: "string option io" where
  "get_version_stage =
     except_serial
       (io_bind ensure_open (\<lambda>_.
        io_bind (ser_write [0x00, 0xff]) (\<lambda>n.
          if n = 0 then io_return None
          else
            io_bind (ser_read 26) (\<lambda>r.
              if length r > 0 \<and> length r = 26 \<and> uint (r ! 25) = crc (butlast r)
              then io_return (Some (decode_latin (butlast r)))
              else io_return None))))
       (io_return None)"

definition get_sector_size_stage :: "nat option io" where
  "get_sector_size_stage =
     except_serial
       (io_bind ensure_open (\<lambda>_.
        io_bind (ser_write [0x03, 0xfc]) (\<lambda>n.
          if n = 0 then io_return None
          else
            io_bind (ser_read 2) (\<lambda>r.
              if length r > 0 \<and> length r = 2 \<and> uint (last r) = crc (butlast r)
              then io_return (Some (unat (r ! 0)))
              else io_return None))))
       (io_return None)"

definition app_start_stage :: "bool option io" where
  "app_start_stage =
     except_serial
       (io_bind ensure_open (\<lambda>_.
        io_bind (ser_write [0x02, 0xfd]) (\<lambda>n.
          if n = 0 then io_return None
          else
            io_bind (ser_read 2) (\<lambda>r.
              if length r > 0 then
                if r ! 0 = 0x75 \<and> uint (last r) = crc (butlast r)
                then io_return (Some True)
                else io_return (Some False)
              else io_return None))))
       (io_return None)"

section \<open>Firmware transfer\<close>

text \<open>The status classifier local to \<open>_flash_fw\<close>. It has no final \<open>else\<close>: for any
  other status byte the Python function returns \<open>None\<close>.\<close>

definition fw_status_check :: "byte list \<Rightarrow> int option" where
  "fw_status_check r =
     (if length r = 0 then Some 2
      else if r ! 0 = 0x75 then Some 4
      else if r ! 0 = 0x1f then Some 3
      else if r ! 0 = 0x21 then Some 0
      else if r ! 0 = 0x20 then Some 1
      else None)"

text \<open>\<open>size.to_bytes(4, 'little')\<close>, which raises \<open>OverflowError\<close> when the size does
  not fit four bytes.\<close>

definition to_bytes4 :: "nat \<Rightarrow> byte list io" where
  "to_bytes4 n =
     (if n < 2 ^ 32
      then io_return [of_nat n, of_nat (n div 2 ^ 8), of_nat (n div 2 ^ 16), of_nat (n div 2 ^ 24)]
      else io_raise OverflowError)"

text \<open>
  The variables the chunk loop changes: the send buffer, the read position of the image
  file, and \<open>x\<close>, which is unbound (\<open>None\<close>) until the first chunk has been classified.
  \<open>chunk_count\<close> only feeds the progress bar and is left out.
\<close>

record flash_vars =
  buffer_send :: "byte list"
  fpos :: nat
  x :: "int option"

text \<open>How the loop ends: by a \<open>return\<close> from inside it, or by running out of chunks.\<close>

datatype loop_exit = Return "int option" | Done flash_vars

text \<open>\<open>for _ in range(size // buffer_size)\<close>, the first argument counting the
  iterations left. \<open>x > 3\<close> with \<open>x = None\<close> raises \<open>TypeError\<close>.\<close>

primrec chunk_loop :: "nat \<Rightarrow> nat \<Rightarrow> byte list \<Rightarrow> flash_vars \<Rightarrow> loop_exit io" where
  "chunk_loop 0 buffer_size img vs = io_return (Done vs)"
| "chunk_loop (Suc n) buffer_size img vs =
     (let chunk = take buffer_size (drop (fpos vs) img);
          b1 = chunk @ drop (length (buffer_send vs) - 1) (buffer_send vs)
      in if b1 = [] then io_raise IndexError
         else
           let b2 = b1[length b1 - 1 := word_of_int (crc (butlast b1))];
               vs1 = vs\<lparr>buffer_send := b2, fpos := fpos vs + length chunk\<rparr>
           in io_bind (ser_write b2) (\<lambda>k.
                if k = 0 then io_return (Return (Some 2))
                else
                  io_bind (ser_read 2) (\<lambda>r.
                    if length r = 2 \<and> uint (last r) = crc (butlast r) then
                      (case fw_status_check r of
                         None \<Rightarrow> io_raise TypeError
                       | Some c \<Rightarrow>
                           if c > 3 then chunk_loop n buffer_size img (vs1\<lparr>x := Some c\<rparr>)
                           else io_return (Return (Some 0)))
                    else io_return (Return (Some 0)))))"

text \<open>The code after the loop: the final partial chunk, or \<open>return x\<close>.\<close>

definition final_chunk :: "nat \<Rightarrow> byte list \<Rightarrow> flash_vars \<Rightarrow> int option io" where
  "final_chunk buffer_size img vs =
     (let size_remainder = length img mod buffer_size in
      if size_remainder > 0 then
        let chunk = take size_remainder (drop (fpos vs) img);
            b1 = chunk @ drop size_remainder (buffer_send vs)
        in if \<not> size_remainder < length b1 then io_raise IndexError
           else
             let b2 = b1[size_remainder := word_of_int (crc (take size_remainder b1))]
             in io_bind (ser_write (take (size_remainder + 1) b2)) (\<lambda>k.
                  if k = 0 then io_return (Some 2)
                  else
                    io_bind (ser_read 2) (\<lambda>r.
                      if length r = 2 \<and> uint (last r) = crc (butlast r)
                      then io_return (fw_status_check r)
                      else io_return (Some 0)))
      else
        (case x vs of
           None \<Rightarrow> io_raise UnboundLocalError
         | Some c \<Rightarrow> io_return (Some c)))"

text \<open>\<open>_flash_fw(ser, v, ss, f)\<close>, the image file given by its content. The division
  \<open>size // buffer_size\<close> raises \<open>ZeroDivisionError\<close> for a sector size of 0.\<close>

definition flash_fw_stage :: "nat \<Rightarrow> byte list \<Rightarrow> int option io" where
  "flash_fw_stage ss img =
     (let buffer_size = ss * 1024;
          buffer0 = replicate (buffer_size + 1) 0;
          size = length img
      in except_serial
        (io_bind ensure_open (\<lambda>_.
         io_bind (ser_write [0x01, 0xfe]) (\<lambda>n.
           if n = 0 then io_return (Some 0)
           else
             io_bind (ser_read 2) (\<lambda>r.
               if length r > 0 then
                 if r ! 0 = 0x75 \<and> uint (last r) = crc (butlast r) then
                   io_bind (to_bytes4 size) (\<lambda>b4.
                   let bsize = b4 @ [word_of_int (crc b4)] in
                   io_bind (ser_write bsize) (\<lambda>n2.
                     if n2 = 5 then
                       io_bind (ser_read 2) (\<lambda>r2.
                         if length r2 > 0 then
                           if length r2 = 2 \<and> uint (last r2) = crc (butlast r2) then
                             if r2 ! 0 = 0x75 then
                               if buffer_size = 0 then io_raise ZeroDivisionError
                               else
                                 io_bind
                                   (chunk_loop (size div buffer_size) buffer_size img
                                      \<lparr>buffer_send = buffer0, fpos = 0, x = None\<rparr>)
                                   (\<lambda>ex. case ex of
                                      Return v \<Rightarrow> io_return v
                                    | Done vs \<Rightarrow> final_chunk buffer_size img vs)
                             else io_return (Some 0)
                           else io_return (Some 0)
                         else io_return (Some 0))
                     else io_return (Some 0)))
                 else io_return (Some 2)
               else io_return (Some 0)))))
        (io_return (Some 0)))"

section \<open>Session orchestrator\<close>

text \<open>\<open>open_port\<close>: a new \<open>serial.Serial\<close> object, which opens the port at once, or
  \<open>None\<close> (here \<open>False\<close>) on \<open>SerialException\<close>.\<close>

definition open_port :: "serial \<Rightarrow> serial \<times> bool" where
  "open_port s =
     (case ser_open s of
        (s', Inl e) \<Rightarrow> (s', False)
      | (s', Inr u) \<Rightarrow> (s', True))"

text \<open>The four operations run their stage under \<open>try ... except Exception ...
  finally: ser.close()\<close>.\<close>

definition handshake :: "serial \<Rightarrow> serial \<times> bool" where
  "handshake s0 =
     (case open_port s0 of
        (s, True) \<Rightarrow>
          (case handshake_stage s of
             (s1, Inr handshake_check) \<Rightarrow> (ser_close s1, handshake_check)
           | (s1, Inl e) \<Rightarrow> (ser_close s1, False))
      | (s, False) \<Rightarrow> (s, False))"

definition get_version :: "serial \<Rightarrow> serial \<times> bool" where
  "get_version s0 =
     (case open_port s0 of
        (s, True) \<Rightarrow>
          (case get_version_stage s of
             (s1, Inr ver) \<Rightarrow> (ser_close s1, ver \<noteq> None)
           | (s1, Inl e) \<Rightarrow> (ser_close s1, False))
      | (s, False) \<Rightarrow> (s, False))"

text \<open>\<open>for retries in range(3)\<close> of \<open>app_start\<close>: \<open>True\<close> is the \<open>return True\<close> inside
  the loop, \<open>False\<close> the \<open>return False\<close> after it.\<close>

primrec app_start_loop :: "nat \<Rightarrow> bool io" where
  "app_start_loop 0 = io_return False"
| "app_start_loop (Suc n) =
     io_bind app_start_stage (\<lambda>res.
       if res = Some True then io_return True else app_start_loop n)"

text \<open>\<open>app_start\<close> returns \<open>True\<close>, \<open>False\<close>, or nothing (\<open>None\<close>) when the port
  did not open or an exception was caught.\<close>

definition app_start :: "serial \<Rightarrow> serial \<times> bool option" where
  "app_start s0 =
     (case open_port s0 of
        (s, True) \<Rightarrow>
          (case app_start_loop 3 s of
             (s1, Inr b) \<Rightarrow> (ser_close s1, Some b)
           | (s1, Inl e) \<Rightarrow> (ser_close s1, None))
      | (s, False) \<Rightarrow> (s, None))"

primrec flash_retry :: "nat \<Rightarrow> nat \<Rightarrow> byte list \<Rightarrow> bool io" where
  "flash_retry 0 ss img = io_return False"
| "flash_retry (Suc n) ss img =
     io_bind (flash_fw_stage ss img) (\<lambda>res.
       if res = Some 1 then io_return True else flash_retry n ss img)"

text \<open>\<open>update\<close>, the firmware file given by its content, \<open>None\<close> when the path is not
  a file. That the file exists and then cannot be opened for reading is not modelled.\<close>

definition update :: "byte list option \<Rightarrow> serial \<Rightarrow> serial \<times> bool" where
  "update file s0 =
     (case file of
        None \<Rightarrow> (s0, False)
      | Some img \<Rightarrow>
          (case open_port s0 of
             (s, True) \<Rightarrow>
               (case io_bind get_sector_size_stage (\<lambda>ss.
                       case ss of
                         None \<Rightarrow> io_return False
                       | Some n \<Rightarrow> flash_retry 3 n img) s of
                  (s1, Inr b) \<Rightarrow> (ser_close s1, b)
                | (s1, Inl e) \<Rightarrow> (ser_close s1, False))
           | (s, False) \<Rightarrow> (s, False)))"

text \<open>
  The four operations above close the port themselves. \<open>request_bootloader\<close> has no
  \<open>finally\<close>: on its \<open>return True\<close> and \<open>return False\<close> paths the local \<open>ser\<close>, the
  only reference to the \<open>serial.Serial\<close> object, goes out of scope with the port still
  open. CPython then finalizes the object at once, and the finalizer of
  \<open>io.RawIOBase\<close>, which \<open>serial.Serial\<close> derives from, calls \<open>close()\<close>; on a port
  that is closed already it does nothing. When the function is left by an exception the
  traceback still refers to the frame and its \<open>ser\<close>, and nothing is finalized at that
  point.
\<close>

definition finalize :: "'a io \<Rightarrow> 'a io" where
  "finalize m s =
     (case m s of
        (s', Inl e) \<Rightarrow> (s', Inl e)
      | (s', Inr v) \<Rightarrow> (if is_open s' then ser_close s' else s', Inr v))"






text \<open>The port raises nothing but its own exceptions: every exception in the scripts of
  \<open>write\<close> and \<open>read\<close> is a \<open>SerialException\<close> or a \<open>SerialTimeoutException\<close>, as
  pyserial documents.\<close>

definition serial_only :: "serial \<Rightarrow> bool" where
  "serial_only s =
     (list_all (\<lambda>out. case out of Inl e \<Rightarrow> is_serial_exn e | Inr n \<Rightarrow> True) (write_script s)
      \<and> list_all (\<lambda>out. case out of Inl e \<Rightarrow> is_serial_exn e | Inr r \<Rightarrow> True) (read_script s))"

section \<open>Notions used in the statements\<close>

text \<open>The responses on which \<open>_app_start\<close> sets its result to \<open>True\<close>: of the bytes
  that arrived, \<open>read(2)\<close> keeps two; the first is \<open>0x75\<close> and the last is the checksum
  of those before it.\<close>

definition started :: "byte list \<Rightarrow> bool" where
  "started r =
     (take 2 r \<noteq> [] \<and> r ! 0 = 0x75 \<and> uint (last (take 2 r)) = crc (butlast (take 2 r)))"

text \<open>
  One attempt of \<open>app_start\<close> on the port in state \<open>s\<close>, told from what the port and
  the device will do. It succeeds when the write of the request is accepted and the read
  returns a checksum-valid \<open>0x75\<close>. It fails or is inconclusive when the write returns 0
  or raises a serial exception, when the read raises a serial exception, or when the read
  returns anything else, no bytes included.
\<close>

definition attempt_succeeds :: "serial \<Rightarrow> bool" where
  "attempt_succeeds s =
     (case next_write s [0x02, 0xfd] of
        Inl e \<Rightarrow> False
      | Inr n \<Rightarrow>
          n \<noteq> 0 \<and>
          (case next_read s 2 of
             Inl e \<Rightarrow> False
           | Inr r \<Rightarrow> r \<noteq> [] \<and> r ! 0 = 0x75 \<and> uint (last r) = crc (butlast r)))"

definition attempt_fails :: "serial \<Rightarrow> bool" where
  "attempt_fails s =
     (case next_write s [0x02, 0xfd] of
        Inl e \<Rightarrow> e = SerialException \<or> e = SerialTimeoutException
      | Inr n \<Rightarrow>
          n = 0 \<or>
          (case next_read s 2 of
             Inl e \<Rightarrow> e = SerialException \<or> e = SerialTimeoutException
           | Inr r \<Rightarrow> \<not> (r \<noteq> [] \<and> r ! 0 = 0x75 \<and> uint (last r) = crc (butlast r))))"

text \<open>A frame: the payload followed by its checksum byte, as the source builds it
  with \<open>bsize.append(crc(bsize))\<close> and \<open>buffer_send[-1] = crc(buffer_send[:-1])\<close>.
  \<open>status_frame st\<close> is the checksum-valid two-byte response with status \<open>st\<close>,
  \<open>size_frame n\<close> the five-byte frame of the image size.\<close>

definition frame :: "byte list \<Rightarrow> byte list" where
  "frame d = d @ [word_of_int (crc d)]"

definition status_frame :: "byte \<Rightarrow> byte list" where
  "status_frame st = frame [st]"

definition size_frame :: "nat \<Rightarrow> byte list" where
  "size_frame n =
     frame [of_nat n, of_nat (n div 2 ^ 8), of_nat (n div 2 ^ 16), of_nat (n div 2 ^ 24)]"

text \<open>The chunking as the specification words it: \<open>length img div bs\<close> full chunks of
  \<open>bs\<close> bytes in image order, then one partial chunk with the remaining bytes if and
  only if \<open>length img mod bs \<noteq> 0\<close>. It is compared below with what \<open>_flash_fw\<close> writes.\<close>

definition spec_chunks :: "nat \<Rightarrow> byte list \<Rightarrow> byte list list" where
  "spec_chunks bs img =
     map (\<lambda>j. take bs (drop (j * bs) img)) [0..<length img div bs]
     @ (if length img mod bs \<noteq> 0 then [drop (length img div bs * bs) img] else [])"

text \<open>Used in the proofs only: a computation that keeps the port within \<open>serial_only\<close>
  and raises nothing but serial exceptions there.\<close>

definition tame :: "'a io \<Rightarrow> bool" where
  "tame m = (\<forall>s. serial_only s \<longrightarrow>
      serial_only (fst (m s)) \<and> (\<forall>e. snd (m s) = Inl e \<longrightarrow> is_serial_exn e))"

section \<open>Simplification rules\<close>

lemmas io_defs = except_serial_def io_bind_def io_return_def io_raise_def ensure_open_def
  ser_open_def ser_write_def ser_read_def ser_close_def open_port_def Let_def

lemmas next_defs = next_write_def next_read_def next_open_def

lemma writes_of_append [simp]: "writes_of (a @ b) = writes_of a @ writes_of b"
  by (simp add: writes_of_def)

lemma writes_of_simps [simp]:
  "writes_of [] = []"
  "writes_of (EvWrite d # tr) = d # writes_of tr"
  "writes_of (EvRead n # tr) = writes_of tr"
  "writes_of (EvOpen # tr) = writes_of tr"
  "writes_of (EvClose # tr) = writes_of tr"
  by (simp_all add: writes_of_def)

lemma take1_eq: "(take (Suc 0) r = [b]) = (r \<noteq> [] \<and> r ! 0 = b)"
  by (cases r) auto

section \<open>The checksum\<close>

lemma and_255_mod: "(z::int) AND 0xff = z mod 256"
proof -
  have "z AND mask 8 = z mod 2 ^ 8"
    by (simp only: take_bit_eq_mask [symmetric] take_bit_eq_mod)
  then show ?thesis by (simp add: mask_eq_exp_minus_1)
qed

lemma fold_mod_acc:
  "fold (\<lambda>i x. (x + uint i) mod 256) data (a mod 256) = (a + sum_list (map uint data)) mod 256"
proof (induction data arbitrary: a)
  case Nil
  then show ?case by simp
next
  case (Cons b bs)
  have "fold (\<lambda>i x. (x + uint i) mod 256) (b # bs) (a mod 256)
      = fold (\<lambda>i x. (x + uint i) mod 256) bs ((a + uint b) mod 256)"
    by (simp add: mod_add_left_eq)
  also have "\<dots> = (a + uint b + sum_list (map uint bs)) mod 256"
    by (rule Cons.IH)
  finally show ?case by (simp add: add.assoc)
qed

lemma crc_sum: "crc b = (sum_list (map uint b) mod 256) XOR 255"
  using fold_mod_acc [of b 0] by (simp add: crc_def and_255_mod)

lemma crc_bounds: "0 \<le> crc b \<and> crc b < 256"
proof -
  let ?m = "sum_list (map uint b) mod 256"
  have m: "0 \<le> ?m" "?m < 2 ^ 8" by simp_all
  have "?m XOR 255 < 2 ^ 8"
    by (rule XOR_upper [OF m]) simp
  moreover have "0 \<le> ?m XOR 255" using m(1) by simp
  ultimately show ?thesis by (simp add: crc_sum)
qed

lemma uint_crc_byte: "uint (word_of_int (crc b) :: byte) = crc b"
  using crc_bounds [of b] by (simp add: uint_word_of_int take_bit_int_eq_self)

text \<open>
  C1. For every byte sequence \<open>b\<close>, \<open>crc b\<close> is the sum of the bytes modulo 256, XOR
  \<open>0xff\<close>; it is a byte value (the function is total, and nothing in it can fail); and
  validating the frame \<open>b @ [crc b]\<close>, that is recomputing the checksum over all bytes
  but the last and comparing it with the last byte, gives \<open>crc b\<close> again and succeeds.
\<close>

theorem crc_checksum:
  "crc b = (sum_list (map uint b) mod 256) XOR 0xff
   \<and> 0 \<le> crc b \<and> crc b < 256
   \<and> crc (butlast (b @ [word_of_int (crc b)])) = crc b
   \<and> uint (last (b @ [word_of_int (crc b)])) = crc (butlast (b @ [word_of_int (crc b)]))"
  using crc_bounds [of b] by (simp add: crc_sum [symmetric] uint_crc_byte)

section \<open>Handshake\<close>

text \<open>
  C7. The handshake stage returns \<open>True\<close> if and only if the port is (or can be) opened,
  the write of the handshake byte is accepted, and the read of one byte returns exactly
  the byte \<open>0x75\<close>: any other byte, an empty read or an error never gives success. When
  the port is open the stage writes the single byte \<open>0x75\<close> and nothing else. The
  operation \<open>handshake\<close> succeeds under the same condition.
\<close>

theorem handshake_success_iff:
  "(snd (handshake_stage s) = Inr True) =
     ((is_open s \<or> next_open s)
      \<and> (\<exists>n. next_write s [0x75] = Inr n \<and> n \<noteq> 0)
      \<and> next_read s 1 = Inr [0x75])
   \<and> writes_of (trace (fst (handshake_stage s))) =
       writes_of (trace s) @ (if is_open s \<or> next_open s then [[0x75]] else [])
   \<and> snd (handshake s0) =
       (next_open s0
        \<and> (\<exists>n. next_write s0 [0x75] = Inr n \<and> n \<noteq> 0)
        \<and> next_read s0 1 = Inr [0x75])"
proof (intro conjI)
  show "(snd (handshake_stage s) = Inr True) =
     ((is_open s \<or> next_open s)
      \<and> (\<exists>n. next_write s [0x75] = Inr n \<and> n \<noteq> 0)
      \<and> next_read s 1 = Inr [0x75])"
    by (simp add: handshake_stage_def io_defs next_defs split: list.splits sum.splits prod.splits)
       (auto simp: take1_eq split: list.splits)
  show "writes_of (trace (fst (handshake_stage s))) =
       writes_of (trace s) @ (if is_open s \<or> next_open s then [[0x75]] else [])"
    by (simp add: handshake_stage_def io_defs split: list.splits sum.splits prod.splits)
  show "snd (handshake s0) =
       (next_open s0
        \<and> (\<exists>n. next_write s0 [0x75] = Inr n \<and> n \<noteq> 0)
        \<and> next_read s0 1 = Inr [0x75])"
    by (simp add: handshake_def handshake_stage_def io_defs next_defs
          split: list.splits sum.splits prod.splits)
       (auto simp: take1_eq split: list.splits)
qed

section \<open>Version query\<close>

lemma crc_replicate_0: "crc (replicate n 0) = 0xff"
  by (simp add: crc_sum sum_list_replicate)

lemma decode_latin_zero: "decode_latin (replicate n 0) = replicate n (CHR 0x00)"
  by (simp add: decode_latin_def char_of_def)

text \<open>
  C4, as the claim states it, fails: for the response of 25 zero bytes and their
  checksum \<open>0xff\<close> the version stage returns the string of 25 NUL characters as the
  version, and \<open>get_version\<close> reports success.
\<close>

theorem version_zero_response:
  "snd (get_version_stage \<lparr>is_open = True, open_script = [], write_script = [],
          read_script = [Inr (replicate 25 0 @ [0xff])], trace = []\<rparr>)
     = Inr (Some (replicate 25 (CHR 0x00)))
   \<and> snd (get_version \<lparr>is_open = False, open_script = [], write_script = [],
          read_script = [Inr (replicate 25 0 @ [0xff])], trace = []\<rparr>) = True"
  by (simp add: get_version_def get_version_stage_def io_defs next_defs nth_append
      crc_replicate_0 decode_latin_zero butlast_append)

text \<open>
  C4, amended. When the write of the request is accepted and 26 bytes arrive whose last
  byte is the checksum of the 25 before it, the version stage does not raise and returns
  the Latin-1 decoding of the 25 bytes; for 25 zero bytes this is the string of 25 NUL
  characters, returned like any other version, and \<open>get_version\<close> reports success.
\<close>

theorem get_version_stage_result:
  assumes "is_open s \<or> next_open s"
    and "next_write s [0x00, 0xff] = Inr n" and "n \<noteq> 0"
    and "next_read s 26 = Inr r" and "length r = 26" and "uint (r ! 25) = crc (butlast r)"
  shows "snd (get_version_stage s) = Inr (Some (decode_latin (butlast r)))
     \<and> (r = replicate 25 0 @ [0xff] \<longrightarrow>
          snd (get_version_stage s) = Inr (Some (replicate 25 (CHR 0x00))))
     \<and> (next_open s \<longrightarrow> snd (get_version s) = True)"
  using assms
  by (auto simp add: get_version_def get_version_stage_def io_defs next_defs decode_latin_zero
      butlast_append split: list.splits sum.splits prod.splits)

theorem get_version_stage_result_witness:
  "snd (get_version_stage \<lparr>is_open = False, open_script = [True], write_script = [Inr 2],
          read_script = [Inr (replicate 25 0 @ [0xff])], trace = []\<rparr>)
     = Inr (Some (replicate 25 (CHR 0x00)))
   \<and> snd (get_version \<lparr>is_open = False, open_script = [True], write_script = [Inr 2],
          read_script = [Inr (replicate 25 0 @ [0xff])], trace = []\<rparr>) = True"
  using get_version_stage_result [of "\<lparr>is_open = False, open_script = [True],
          write_script = [Inr 2], read_script = [Inr (replicate 25 0 @ [0xff])], trace = []\<rparr>"
          2 "replicate 25 0 @ [0xff]"]
  by (simp add: next_defs nth_append butlast_append crc_replicate_0 decode_latin_zero)

section \<open>App start\<close>

text \<open>
  C5, as the claim states it, fails: the response \<open>[0x75, 0x00]\<close> has a wrong checksum,
  and the stage reports "start failed" (\<open>False\<close>), not "indeterminate" (\<open>None\<close>).
\<close>

theorem app_start_checksum_failure:
  "uint (0x00 :: byte) \<noteq> crc [0x75]
   \<and> snd (app_start_stage \<lparr>is_open = True, open_script = [], write_script = [],
          read_script = [Inr [0x75, 0x00]], trace = []\<rparr>) = Inr (Some False)"
  by (simp add: app_start_stage_def io_defs next_defs crc_def)

text \<open>
  C5, amended. When the write of the request is accepted and the read returns the bytes
  \<open>r\<close> (at most two), the stage reports success if \<open>r\<close> is not empty, its first byte is
  \<open>0x75\<close> and its last byte is the checksum of the bytes before it; "start failed" for
  every other response that is not empty, a wrong checksum and a single byte included;
  and "indeterminate" exactly when no byte arrived.
\<close>

theorem app_start_stage_result:
  assumes "is_open s \<or> next_open s"
    and "next_write s [0x02, 0xfd] = Inr n" and "n \<noteq> 0"
    and "next_read s 2 = Inr r"
  shows "snd (app_start_stage s) =
     Inr (if r = [] then None
          else if r ! 0 = 0x75 \<and> uint (last r) = crc (butlast r) then Some True
          else Some False)"
  using assms
  by (auto simp add: app_start_stage_def io_defs next_defs
      split: list.splits sum.splits prod.splits)

theorem app_start_stage_result_witness:
  "snd (app_start_stage \<lparr>is_open = True, open_script = [], write_script = [],
          read_script = [Inr [0x75]], trace = []\<rparr>) = Inr (Some False)"
  using app_start_stage_result [of "\<lparr>is_open = True, open_script = [], write_script = [],
          read_script = [Inr [0x75]], trace = []\<rparr>" 2 "[0x75]"]
  by (simp add: next_defs crc_def)

lemma app_start_stage_writes:
  "writes_of (trace (fst (app_start_stage s))) =
     writes_of (trace s) @ (if is_open s \<or> next_open s then [[0x02, 0xfd]] else [])"
  by (simp add: app_start_stage_def io_defs split: list.splits sum.splits prod.splits)

lemma app_start_stage_open: "is_open s \<Longrightarrow> is_open (fst (app_start_stage s))"
  by (simp add: app_start_stage_def io_defs split: list.splits sum.splits prod.splits)

lemma app_start_loop_writes:
  "is_open s \<Longrightarrow>
   \<exists>k\<le>n. writes_of (trace (fst (app_start_loop n s))) =
     writes_of (trace s) @ replicate k [0x02, 0xfd]"
proof (induction n arbitrary: s)
  case 0
  then show ?case by (simp add: io_return_def)
next
  case (Suc n)
  obtain s1 res where st: "app_start_stage s = (s1, res)" by (cases "app_start_stage s")
  have w1: "writes_of (trace s1) = writes_of (trace s) @ [[0x02, 0xfd]]"
    using app_start_stage_writes [of s] Suc.prems st by simp
  have o1: "is_open s1" using app_start_stage_open [OF Suc.prems] st by simp
  show ?case
  proof (cases "\<exists>v. res = Inr v \<and> v \<noteq> Some True")
    case True
    then have eq: "app_start_loop (Suc n) s = app_start_loop n s1"
      using st by (auto simp: io_bind_def)
    from Suc.IH [OF o1] obtain k where k: "k \<le> n"
      and "writes_of (trace (fst (app_start_loop n s1))) =
        writes_of (trace s1) @ replicate k [0x02, 0xfd]"
      by blast
    then have "writes_of (trace (fst (app_start_loop (Suc n) s))) =
        writes_of (trace s) @ replicate (Suc k) [0x02, 0xfd]"
      by (simp add: eq w1 del: app_start_loop.simps)
    with k show ?thesis by (metis Suc_le_mono)
  next
    case False
    then have "fst (app_start_loop (Suc n) s) = s1"
      using st by (cases res) (auto simp: io_bind_def io_return_def)
    then have "writes_of (trace (fst (app_start_loop (Suc n) s))) =
        writes_of (trace s) @ replicate (Suc 0) [0x02, 0xfd]"
      by (simp add: w1)
    then show ?thesis by (metis Suc_le_mono le0)
  qed
qed

lemma app_start_writes_bound:
  "\<exists>k\<le>3. writes_of (trace (fst (app_start s0))) =
     writes_of (trace s0) @ replicate k [0x02, 0xfd]"
proof (cases "next_open s0")
  case False
  then have "writes_of (trace (fst (app_start s0))) =
      writes_of (trace s0) @ replicate 0 [0x02, 0xfd]"
    by (simp add: app_start_def io_defs)
  then show ?thesis by blast
next
  case True
  define s where
    "s = s0\<lparr>open_script := tl (open_script s0), trace := trace s0 @ [EvOpen], is_open := True\<rparr>"
  have op: "open_port s0 = (s, True)" using True by (simp add: io_defs s_def)
  have "is_open s" by (simp add: s_def)
  from app_start_loop_writes [OF this, of 3] obtain k where k: "k \<le> 3"
    and w: "writes_of (trace (fst (app_start_loop 3 s))) =
      writes_of (trace s) @ replicate k [0x02, 0xfd]"
    by blast
  have "writes_of (trace (fst (app_start s0))) = writes_of (trace (fst (app_start_loop 3 s)))"
    by (simp add: app_start_def op ser_close_def split: prod.splits sum.splits)
  with w have "writes_of (trace (fst (app_start s0))) =
      writes_of (trace s0) @ replicate k [0x02, 0xfd]"
    by (simp add: s_def)
  with k show ?thesis by blast
qed

lemma app_start_stage_step:
  assumes "is_open s" "write_script s = []" "read_script s = Inr r # rest"
  shows "\<exists>s1. app_start_stage s =
           (s1, Inr (if started r then Some True else if take 2 r = [] then None else Some False))
         \<and> is_open s1 \<and> write_script s1 = [] \<and> read_script s1 = rest
         \<and> writes_of (trace s1) = writes_of (trace s) @ [[0x02, 0xfd]]"
  using assms
  by (auto simp add: app_start_stage_def io_defs next_defs started_def)

lemma app_start_scripted:
  assumes "next_open s0" "write_script s0 = []"
    and "read_script s0 = Inr r1 # Inr r2 # Inr r3 # rest"
  shows "snd (app_start s0) = Some (started r1 \<or> started r2 \<or> started r3)
     \<and> writes_of (trace (fst (app_start s0))) =
         writes_of (trace s0) @
           replicate (if started r1 then 1 else if started r2 then 2 else 3) [0x02, 0xfd]"
proof -
  define s where
    "s = s0\<lparr>open_script := tl (open_script s0), trace := trace s0 @ [EvOpen], is_open := True\<rparr>"
  have op: "open_port s0 = (s, True)" using assms(1) by (simp add: io_defs s_def)
  have s: "is_open s" "write_script s = []" "read_script s = Inr r1 # Inr r2 # Inr r3 # rest"
    "writes_of (trace s) = writes_of (trace s0)"
    using assms by (simp_all add: s_def)
  from app_start_stage_step [OF s(1,2,3)] obtain s1 where
    a1: "app_start_stage s =
      (s1, Inr (if started r1 then Some True else if take 2 r1 = [] then None else Some False))"
    and s1: "is_open s1" "write_script s1 = []" "read_script s1 = Inr r2 # Inr r3 # rest"
    and w1: "writes_of (trace s1) = writes_of (trace s) @ [[0x02, 0xfd]]" by blast
  from app_start_stage_step [OF s1] obtain s2 where
    a2: "app_start_stage s1 =
      (s2, Inr (if started r2 then Some True else if take 2 r2 = [] then None else Some False))"
    and s2: "is_open s2" "write_script s2 = []" "read_script s2 = Inr r3 # rest"
    and w2: "writes_of (trace s2) = writes_of (trace s1) @ [[0x02, 0xfd]]" by blast
  from app_start_stage_step [OF s2] obtain s3 where
    a3: "app_start_stage s2 =
      (s3, Inr (if started r3 then Some True else if take 2 r3 = [] then None else Some False))"
    and w3: "writes_of (trace s3) = writes_of (trace s2) @ [[0x02, 0xfd]]" by blast
  have three: "(3::nat) = Suc (Suc (Suc 0))" by simp
  have loop: "app_start_loop 3 s =
     (if started r1 then (s1, Inr True) else if started r2 then (s2, Inr True)
      else if started r3 then (s3, Inr True) else (s3, Inr False))"
    unfolding three by (simp add: io_bind_def io_return_def a1 a2 a3)
  have rep: "replicate 2 [0x02, 0xfd :: byte] = [[0x02, 0xfd], [0x02, 0xfd]]"
    "replicate 3 [0x02, 0xfd :: byte] = [[0x02, 0xfd], [0x02, 0xfd], [0x02, 0xfd]]"
    by (simp_all add: eval_nat_numeral)
  show ?thesis
    by (simp add: app_start_def op loop ser_close_def w1 w2 w3 s(4) rep)
qed

lemma app_start_stage_attempt:
  assumes "is_open s"
  shows "(snd (app_start_stage s) = Inr (Some True)) = attempt_succeeds s"
    and "(snd (app_start_stage s) = Inr None \<or> snd (app_start_stage s) = Inr (Some False))
          = attempt_fails s"
  using assms
  by (auto simp add: app_start_stage_def io_defs next_defs attempt_succeeds_def attempt_fails_def
      is_serial_exn_def split: list.splits sum.splits)

lemma not_Some_True: "(v \<noteq> Some True) = (v = None \<or> v = Some False)"
  by (cases v) auto

lemma app_start_general:
  assumes op: "next_open s0"
    and s1: "s1 = fst (open_port s0)"
    and s2: "s2 = fst (app_start_stage s1)"
    and s3: "s3 = fst (app_start_stage s2)"
  shows "(snd (app_start s0) = Some True) =
           (attempt_succeeds s1
            \<or> attempt_fails s1 \<and> attempt_succeeds s2
            \<or> attempt_fails s1 \<and> attempt_fails s2 \<and> attempt_succeeds s3)"
    and "attempt_fails s1 \<and> attempt_fails s2 \<and> attempt_fails s3 \<Longrightarrow>
           snd (app_start s0) = Some False
           \<and> writes_of (trace (fst (app_start s0))) =
               writes_of (trace s0) @ [[0x02, 0xfd], [0x02, 0xfd], [0x02, 0xfd]]"
    and "(snd (app_start s0) = Some False) =
           (attempt_fails s1 \<and> attempt_fails s2 \<and> attempt_fails s3)"
    and "attempt_succeeds s1 \<Longrightarrow>
           writes_of (trace (fst (app_start s0))) = writes_of (trace s0) @ [[0x02, 0xfd]]"
    and "attempt_fails s1 \<and> attempt_succeeds s2 \<Longrightarrow>
           writes_of (trace (fst (app_start s0))) =
             writes_of (trace s0) @ [[0x02, 0xfd], [0x02, 0xfd]]"
proof -
  have o1: "is_open s1" and p: "open_port s0 = (s1, True)"
    and w1: "writes_of (trace s1) = writes_of (trace s0)"
    using op by (simp_all add: s1 io_defs)
  have o2: "is_open s2" unfolding s2 by (rule app_start_stage_open [OF o1])
  have o3: "is_open s3" unfolding s3 by (rule app_start_stage_open [OF o2])
  obtain r1 where a1: "app_start_stage s1 = (s2, r1)" by (cases "app_start_stage s1") (simp add: s2)
  obtain r2 where a2: "app_start_stage s2 = (s3, r2)" by (cases "app_start_stage s2") (simp add: s3)
  obtain s4 r3 where a3: "app_start_stage s3 = (s4, r3)" by (cases "app_start_stage s3")
  have w2: "writes_of (trace s2) = writes_of (trace s0) @ [[0x02, 0xfd]]"
    using app_start_stage_writes [of s1] o1 a1 w1 by simp
  have w3: "writes_of (trace s3) = writes_of (trace s2) @ [[0x02, 0xfd]]"
    using app_start_stage_writes [of s2] o2 a2 by simp
  have w4: "writes_of (trace s4) = writes_of (trace s3) @ [[0x02, 0xfd]]"
    using app_start_stage_writes [of s3] o3 a3 by simp
  have c1: "(r1 = Inr (Some True)) = attempt_succeeds s1"
    "(r1 = Inr None \<or> r1 = Inr (Some False)) = attempt_fails s1"
    using app_start_stage_attempt [OF o1] a1 by simp_all
  have c2: "(r2 = Inr (Some True)) = attempt_succeeds s2"
    "(r2 = Inr None \<or> r2 = Inr (Some False)) = attempt_fails s2"
    using app_start_stage_attempt [OF o2] a2 by simp_all
  have c3: "(r3 = Inr (Some True)) = attempt_succeeds s3"
    "(r3 = Inr None \<or> r3 = Inr (Some False)) = attempt_fails s3"
    using app_start_stage_attempt [OF o3] a3 by simp_all
  have loop: "app_start_loop 3 s1 =
     (case r1 of Inl e \<Rightarrow> (s2, Inl e)
      | Inr v1 \<Rightarrow> if v1 = Some True then (s2, Inr True) else
        (case r2 of Inl e \<Rightarrow> (s3, Inl e)
         | Inr v2 \<Rightarrow> if v2 = Some True then (s3, Inr True) else
           (case r3 of Inl e \<Rightarrow> (s4, Inl e)
            | Inr v3 \<Rightarrow> if v3 = Some True then (s4, Inr True) else (s4, Inr False))))"
    by (simp add: numeral_3_eq_3 io_bind_def io_return_def a1 a2 a3 split: sum.splits)
  have res: "app_start s0 =
     (case app_start_loop 3 s1 of
        (s', Inr b) \<Rightarrow> (ser_close s', Some b)
      | (s', Inl e) \<Rightarrow> (ser_close s', None))"
    by (simp add: app_start_def p split: prod.splits sum.splits)
  show "(snd (app_start s0) = Some True) =
           (attempt_succeeds s1
            \<or> attempt_fails s1 \<and> attempt_succeeds s2
            \<or> attempt_fails s1 \<and> attempt_fails s2 \<and> attempt_succeeds s3)"
    unfolding res loop c1 [symmetric] c2 [symmetric] c3 [symmetric]
    by (cases r1; cases r2; cases r3) (auto split: if_splits simp: not_Some_True)
  show "snd (app_start s0) = Some False
           \<and> writes_of (trace (fst (app_start s0))) =
               writes_of (trace s0) @ [[0x02, 0xfd], [0x02, 0xfd], [0x02, 0xfd]]"
    if "attempt_fails s1 \<and> attempt_fails s2 \<and> attempt_fails s3"
    using that unfolding res loop c1 [symmetric] c2 [symmetric] c3 [symmetric]
    by (auto simp: ser_close_def w4 w3 w2)
  show "(snd (app_start s0) = Some False) =
           (attempt_fails s1 \<and> attempt_fails s2 \<and> attempt_fails s3)"
    unfolding res loop c1 [symmetric] c2 [symmetric] c3 [symmetric]
    by (cases r1; cases r2; cases r3) (auto split: if_splits simp: not_Some_True)
  show "writes_of (trace (fst (app_start s0))) = writes_of (trace s0) @ [[0x02, 0xfd]]"
    if "attempt_succeeds s1"
    using that unfolding res loop c1 [symmetric]
    by (auto simp: ser_close_def w2)
  show "writes_of (trace (fst (app_start s0))) =
             writes_of (trace s0) @ [[0x02, 0xfd], [0x02, 0xfd]]"
    if "attempt_fails s1 \<and> attempt_succeeds s2"
    using that unfolding res loop c1 [symmetric] c2 [symmetric]
    by (auto simp: ser_close_def w3 w2)
qed

text \<open>
  C8. Whatever the port and the device do, \<open>app_start\<close> writes the app-start request at
  most three times and nothing else. When the port opens, the writes are accepted and
  the first three reads return \<open>r1\<close>, \<open>r2\<close> and \<open>r3\<close>, the operation reports success
  exactly when one of them is a started response and stops at the first such attempt;
  after three attempts that failed or were inconclusive it reports \<open>False\<close>, having made
  exactly three attempts. More generally, for every port that opens, with \<open>s1\<close>, \<open>s2\<close>
  and \<open>s3\<close> the states of the port before the first, second and third attempt: the
  operation reports success exactly when an attempt succeeds after attempts that all
  failed or were inconclusive (a write that returns 0 or raises a serial exception and a
  read that raises one included), then without a further attempt; and it reports
  \<open>False\<close> exactly when three attempts in a row fail or are inconclusive, after three
  requests and no fourth.
\<close>

theorem app_start_three_attempts:
  "(\<exists>k\<le>3. writes_of (trace (fst (app_start s0))) =
       writes_of (trace s0) @ replicate k [0x02, 0xfd])
   \<and> (next_open s0 \<and> write_script s0 = []
        \<and> read_script s0 = Inr r1 # Inr r2 # Inr r3 # rest \<longrightarrow>
       snd (app_start s0) = Some (started r1 \<or> started r2 \<or> started r3)
       \<and> writes_of (trace (fst (app_start s0))) =
           writes_of (trace s0) @
             replicate (if started r1 then 1 else if started r2 then 2 else 3) [0x02, 0xfd])
   \<and> (next_open s0 \<longrightarrow>
       (let s1 = fst (open_port s0);
            s2 = fst (app_start_stage s1);
            s3 = fst (app_start_stage s2)
        in (snd (app_start s0) = Some True) =
             (attempt_succeeds s1
              \<or> attempt_fails s1 \<and> attempt_succeeds s2
              \<or> attempt_fails s1 \<and> attempt_fails s2 \<and> attempt_succeeds s3)
           \<and> (snd (app_start s0) = Some False) =
               (attempt_fails s1 \<and> attempt_fails s2 \<and> attempt_fails s3)
           \<and> (attempt_succeeds s1 \<longrightarrow>
                writes_of (trace (fst (app_start s0))) = writes_of (trace s0) @ [[0x02, 0xfd]])
           \<and> (attempt_fails s1 \<and> attempt_succeeds s2 \<longrightarrow>
                writes_of (trace (fst (app_start s0))) =
                  writes_of (trace s0) @ [[0x02, 0xfd], [0x02, 0xfd]])
           \<and> (attempt_fails s1 \<and> attempt_fails s2 \<and> attempt_fails s3 \<longrightarrow>
                writes_of (trace (fst (app_start s0))) =
                  writes_of (trace s0) @ [[0x02, 0xfd], [0x02, 0xfd], [0x02, 0xfd]])))"
proof (intro conjI)
  show "\<exists>k\<le>3. writes_of (trace (fst (app_start s0))) =
       writes_of (trace s0) @ replicate k [0x02, 0xfd]"
    by (rule app_start_writes_bound)
  show "next_open s0 \<and> write_script s0 = []
        \<and> read_script s0 = Inr r1 # Inr r2 # Inr r3 # rest \<longrightarrow>
       snd (app_start s0) = Some (started r1 \<or> started r2 \<or> started r3)
       \<and> writes_of (trace (fst (app_start s0))) =
           writes_of (trace s0) @
             replicate (if started r1 then 1 else if started r2 then 2 else 3) [0x02, 0xfd]"
    using app_start_scripted [of s0 r1 r2 r3 rest] by blast
  show "next_open s0 \<longrightarrow>
       (let s1 = fst (open_port s0);
            s2 = fst (app_start_stage s1);
            s3 = fst (app_start_stage s2)
        in (snd (app_start s0) = Some True) =
             (attempt_succeeds s1
              \<or> attempt_fails s1 \<and> attempt_succeeds s2
              \<or> attempt_fails s1 \<and> attempt_fails s2 \<and> attempt_succeeds s3)
           \<and> (snd (app_start s0) = Some False) =
               (attempt_fails s1 \<and> attempt_fails s2 \<and> attempt_fails s3)
           \<and> (attempt_succeeds s1 \<longrightarrow>
                writes_of (trace (fst (app_start s0))) = writes_of (trace s0) @ [[0x02, 0xfd]])
           \<and> (attempt_fails s1 \<and> attempt_succeeds s2 \<longrightarrow>
                writes_of (trace (fst (app_start s0))) =
                  writes_of (trace s0) @ [[0x02, 0xfd], [0x02, 0xfd]])
           \<and> (attempt_fails s1 \<and> attempt_fails s2 \<and> attempt_fails s3 \<longrightarrow>
                writes_of (trace (fst (app_start s0))) =
                  writes_of (trace s0) @ [[0x02, 0xfd], [0x02, 0xfd], [0x02, 0xfd]]))"
  proof
    assume op: "next_open s0"
    note g = app_start_general [OF op refl refl refl]
    show "let s1 = fst (open_port s0);
            s2 = fst (app_start_stage s1);
            s3 = fst (app_start_stage s2)
        in (snd (app_start s0) = Some True) =
             (attempt_succeeds s1
              \<or> attempt_fails s1 \<and> attempt_succeeds s2
              \<or> attempt_fails s1 \<and> attempt_fails s2 \<and> attempt_succeeds s3)
           \<and> (snd (app_start s0) = Some False) =
               (attempt_fails s1 \<and> attempt_fails s2 \<and> attempt_fails s3)
           \<and> (attempt_succeeds s1 \<longrightarrow>
                writes_of (trace (fst (app_start s0))) = writes_of (trace s0) @ [[0x02, 0xfd]])
           \<and> (attempt_fails s1 \<and> attempt_succeeds s2 \<longrightarrow>
                writes_of (trace (fst (app_start s0))) =
                  writes_of (trace s0) @ [[0x02, 0xfd], [0x02, 0xfd]])
           \<and> (attempt_fails s1 \<and> attempt_fails s2 \<and> attempt_fails s3 \<longrightarrow>
                writes_of (trace (fst (app_start s0))) =
                  writes_of (trace s0) @ [[0x02, 0xfd], [0x02, 0xfd], [0x02, 0xfd]])"
      unfolding Let_def using g by blast
  qed
qed

theorem app_start_three_attempts_witness:
  "(snd (app_start \<lparr>is_open = False, open_script = [], write_script = [],
          read_script = [Inr [], Inr [0x21, 0xde], Inr [0x75, 0x00]], trace = []\<rparr>) = Some False
    \<and> writes_of (trace (fst (app_start \<lparr>is_open = False, open_script = [], write_script = [],
          read_script = [Inr [], Inr [0x21, 0xde], Inr [0x75, 0x00]], trace = []\<rparr>)))
       = [[0x02, 0xfd], [0x02, 0xfd], [0x02, 0xfd]])
   \<and> (snd (app_start \<lparr>is_open = False, open_script = [],
          write_script = [Inr 0, Inl SerialTimeoutException],
          read_script = [Inl SerialException], trace = []\<rparr>) = Some False
    \<and> writes_of (trace (fst (app_start \<lparr>is_open = False, open_script = [],
          write_script = [Inr 0, Inl SerialTimeoutException],
          read_script = [Inl SerialException], trace = []\<rparr>)))
       = [[0x02, 0xfd], [0x02, 0xfd], [0x02, 0xfd]])"
proof -
  have rep: "replicate 3 [0x02, 0xfd :: byte] = [[0x02, 0xfd], [0x02, 0xfd], [0x02, 0xfd]]"
    by (simp add: eval_nat_numeral)
  have a: "snd (app_start \<lparr>is_open = False, open_script = [], write_script = [],
          read_script = [Inr [], Inr [0x21, 0xde], Inr [0x75, 0x00]], trace = []\<rparr>) = Some False
    \<and> writes_of (trace (fst (app_start \<lparr>is_open = False, open_script = [], write_script = [],
          read_script = [Inr [], Inr [0x21, 0xde], Inr [0x75, 0x00]], trace = []\<rparr>)))
       = [[0x02, 0xfd], [0x02, 0xfd], [0x02, 0xfd]]"
    using app_start_three_attempts [of "\<lparr>is_open = False, open_script = [],
          write_script = [], read_script = [Inr [], Inr [0x21, 0xde], Inr [0x75, 0x00]],
          trace = []\<rparr>" "[]" "[0x21, 0xde]" "[0x75, 0x00]" "[]"]
    by (simp add: next_defs started_def crc_def rep)
  have b: "snd (app_start \<lparr>is_open = False, open_script = [],
          write_script = [Inr 0, Inl SerialTimeoutException],
          read_script = [Inl SerialException], trace = []\<rparr>) = Some False
    \<and> writes_of (trace (fst (app_start \<lparr>is_open = False, open_script = [],
          write_script = [Inr 0, Inl SerialTimeoutException],
          read_script = [Inl SerialException], trace = []\<rparr>)))
       = [[0x02, 0xfd], [0x02, 0xfd], [0x02, 0xfd]]"
    using app_start_three_attempts [of "\<lparr>is_open = False, open_script = [],
          write_script = [Inr 0, Inl SerialTimeoutException],
          read_script = [Inl SerialException], trace = []\<rparr>" "[]" "[]" "[]" "[]"]
    by (simp add: attempt_fails_def attempt_succeeds_def app_start_stage_def io_defs
        next_defs is_serial_exn_def)
  show ?thesis by (rule conjI [OF a b])
qed

section \<open>Firmware transfer: the chunk loop\<close>

lemma status_frame_valid:
  "length (status_frame st) = 2" "status_frame st ! 0 = st"
  "uint (last (status_frame st)) = crc (butlast (status_frame st))"
  "take 2 (status_frame st) = status_frame st" "status_frame st \<noteq> []"
  by (simp_all add: status_frame_def frame_def uint_crc_byte)

lemma frame_simps [simp]: "butlast (frame d) = d" "length (frame d) = Suc (length d)" "frame d \<noteq> []"
  by (simp_all add: frame_def)

lemma chunk_buffer:
  assumes "length buf = Suc bs" "length chunk = bs"
  shows "(chunk @ drop (length buf - 1) buf)[length (chunk @ drop (length buf - 1) buf) - 1 :=
            word_of_int (crc (butlast (chunk @ drop (length buf - 1) buf)))] = frame chunk"
proof -
  from assms obtain y where "drop (length buf - 1) buf = [y]"
    by (cases buf rule: rev_cases) auto
  then show ?thesis by (simp add: frame_def butlast_append)
qed

lemma chunk_loop_step:
  assumes s: "is_open s" "write_script s = []" "read_script s = Inr (status_frame st) # rest"
    and buf: "length (buffer_send vs) = Suc bs"
    and full: "fpos vs + bs \<le> length img"
  shows "\<exists>s1. is_open s1 \<and> write_script s1 = [] \<and> read_script s1 = rest
      \<and> open_script s1 = open_script s
      \<and> writes_of (trace s1) = writes_of (trace s) @ [frame (take bs (drop (fpos vs) img))]
      \<and> chunk_loop (Suc n) bs img vs s =
          (if st = 0x75 then
             chunk_loop n bs img
               (vs\<lparr>buffer_send := frame (take bs (drop (fpos vs) img)),
                   fpos := fpos vs + bs, x := Some 4\<rparr>) s1
           else if st = 0x1f \<or> st = 0x21 \<or> st = 0x20 then (s1, Inr (Return (Some 0)))
           else (s1, Inl TypeError))"
proof -
  let ?chunk = "take bs (drop (fpos vs) img)"
  have len: "length ?chunk = bs" using full by simp
  have b2: "(?chunk @ drop (length (buffer_send vs) - 1) (buffer_send vs))
      [length (?chunk @ drop (length (buffer_send vs) - 1) (buffer_send vs)) - 1 :=
         word_of_int (crc (butlast (?chunk @ drop (length (buffer_send vs) - 1) (buffer_send vs))))]
      = frame ?chunk"
    by (rule chunk_buffer [OF buf len])
  have ne: "?chunk @ drop (length (buffer_send vs) - 1) (buffer_send vs) \<noteq> []"
    using buf by simp
  define s1 where "s1 = s\<lparr>write_script := tl (write_script s),
      trace := trace s @ [EvWrite (frame ?chunk)], read_script := tl (read_script s),
      trace := trace s @ [EvWrite (frame ?chunk)] @ [EvRead 2]\<rparr>"
  have "chunk_loop (Suc n) bs img vs s =
          (if st = 0x75 then
             chunk_loop n bs img
               (vs\<lparr>buffer_send := frame ?chunk, fpos := fpos vs + bs, x := Some 4\<rparr>) s1
           else if st = 0x1f \<or> st = 0x21 \<or> st = 0x20 then (s1, Inr (Return (Some 0)))
           else (s1, Inl TypeError))"
  proof -
    have unf: "chunk_loop (Suc n) bs img vs =
       io_bind (ser_write (frame ?chunk)) (\<lambda>k.
                if k = 0 then io_return (Return (Some 2))
                else
                  io_bind (ser_read 2) (\<lambda>r.
                    if length r = 2 \<and> uint (last r) = crc (butlast r) then
                      (case fw_status_check r of
                         None \<Rightarrow> io_raise TypeError
                       | Some c \<Rightarrow>
                           if c > 3 then chunk_loop n bs img
                              (vs\<lparr>buffer_send := frame ?chunk, fpos := fpos vs + length ?chunk\<rparr>\<lparr>x := Some c\<rparr>)
                           else io_return (Return (Some 0)))
                    else io_return (Return (Some 0))))"
      by (simp only: chunk_loop.simps Let_def ne b2 if_False)
    show ?thesis
      unfolding unf using s len
      by (simp add: io_bind_def io_return_def io_raise_def ser_write_def ser_read_def
          next_defs status_frame_valid fw_status_check_def s1_def)
  qed
  moreover have "is_open s1 \<and> write_script s1 = [] \<and> read_script s1 = rest
      \<and> open_script s1 = open_script s
      \<and> writes_of (trace s1) = writes_of (trace s) @ [frame ?chunk]"
    using s by (simp add: s1_def)
  ultimately show ?thesis by blast
qed


lemma chunk_loop_acks:
  assumes "is_open s" "write_script s = []"
    and "read_script s = replicate k (Inr (status_frame 0x75)) @ rest"
    and "length (buffer_send vs) = Suc bs"
    and "fpos vs + k * bs \<le> length img"
  shows "\<exists>s1 vs1. chunk_loop (k + m) bs img vs s = chunk_loop m bs img vs1 s1
      \<and> is_open s1 \<and> write_script s1 = [] \<and> read_script s1 = rest
      \<and> open_script s1 = open_script s
      \<and> writes_of (trace s1) =
          writes_of (trace s) @ map (\<lambda>j. frame (take bs (drop (fpos vs + j * bs) img))) [0..<k]
      \<and> length (buffer_send vs1) = Suc bs \<and> fpos vs1 = fpos vs + k * bs
      \<and> x vs1 = (if k = 0 then x vs else Some 4)"
  using assms
proof (induction k arbitrary: s vs)
  case 0
  then show ?case by auto
next
  case (Suc k)
  let ?vs' = "vs\<lparr>buffer_send := frame (take bs (drop (fpos vs) img)),
                   fpos := fpos vs + bs, x := Some 4\<rparr>"
  have rs: "read_script s = Inr (status_frame 0x75) # (replicate k (Inr (status_frame 0x75)) @ rest)"
    using Suc.prems(3) by simp
  have full: "fpos vs + bs \<le> length img" using Suc.prems(5) by simp
  from chunk_loop_step [OF Suc.prems(1,2) rs Suc.prems(4) full, of "k + m"]
  obtain s1 where s1: "is_open s1" "write_script s1 = []"
      "read_script s1 = replicate k (Inr (status_frame 0x75)) @ rest"
      "open_script s1 = open_script s"
      "writes_of (trace s1) = writes_of (trace s) @ [frame (take bs (drop (fpos vs) img))]"
    and step: "chunk_loop (Suc (k + m)) bs img vs s = chunk_loop (k + m) bs img ?vs' s1"
    by auto
  have b': "length (buffer_send ?vs') = Suc bs" using full by simp
  have f': "fpos ?vs' + k * bs \<le> length img" using Suc.prems(5) by simp
  from Suc.IH [OF s1(1,2,3) b' f']
  obtain s2 vs2 where loop: "chunk_loop (k + m) bs img ?vs' s1 = chunk_loop m bs img vs2 s2"
    and s2: "is_open s2" "write_script s2 = []" "read_script s2 = rest"
      "open_script s2 = open_script s1"
    and w2: "writes_of (trace s2) =
        writes_of (trace s1) @ map (\<lambda>j. frame (take bs (drop (fpos ?vs' + j * bs) img))) [0..<k]"
    and v2: "length (buffer_send vs2) = Suc bs" "fpos vs2 = fpos ?vs' + k * bs"
      "x vs2 = (if k = 0 then x ?vs' else Some 4)"
    by blast
  have w: "writes_of (trace s2) =
      writes_of (trace s) @ map (\<lambda>j. frame (take bs (drop (fpos vs + j * bs) img))) [0..<Suc k]"
    unfolding w2 s1(5) map_upt_Suc by (simp add: ac_simps)
  have "chunk_loop (Suc k + m) bs img vs s = chunk_loop m bs img vs2 s2"
    using step loop by simp
  moreover have "fpos vs2 = fpos vs + Suc k * bs" using v2(2) by simp
  moreover have "x vs2 = (if Suc k = 0 then x vs else Some 4)" using v2(3) by simp
  ultimately show ?case using s2 s1(4) w v2(1)
    by (intro exI [of _ s2] exI [of _ vs2]) simp
qed

lemma final_buffer:
  assumes "length buf = Suc bs" "length chunk = r" "r < bs"
  shows "take (r + 1) ((chunk @ drop r buf)[r := word_of_int (crc (take r (chunk @ drop r buf)))])
     = frame chunk"
proof -
  from assms obtain y ys where d: "drop r buf = y # ys"
    by (cases "drop r buf") auto
  then have "drop (length chunk) buf = y # ys" using assms(2) by simp
  then show ?thesis unfolding assms(2) [symmetric] by (simp add: frame_def)
qed

lemma final_chunk_remainder:
  assumes s: "is_open s" "write_script s = []"
    and buf: "length (buffer_send vs) = Suc bs"
    and pos: "fpos vs = length img div bs * bs"
    and rem: "0 < length img mod bs" and bs: "0 < bs"
  shows "writes_of (trace (fst (final_chunk bs img vs s))) =
           writes_of (trace s) @ [frame (drop (length img div bs * bs) img)]
     \<and> snd (final_chunk bs img vs s) =
         (case next_read s 2 of
            Inl e \<Rightarrow> Inl e
          | Inr r \<Rightarrow> Inr (if length r = 2 \<and> uint (last r) = crc (butlast r)
                         then fw_status_check r else Some 0))"
proof -
  let ?r = "length img mod bs"
  let ?chunk = "take ?r (drop (fpos vs) img)"
  have lt: "?r < bs" using bs by simp
  have m: "length img - length img div bs * bs = ?r"
    by (rule minus_div_mult_eq_mod)
  have len: "length ?chunk = ?r" using pos m by simp
  have ch: "?chunk = drop (length img div bs * bs) img" using pos m by simp
  have b2: "take (?r + 1) ((?chunk @ drop ?r (buffer_send vs))
      [?r := word_of_int (crc (take ?r (?chunk @ drop ?r (buffer_send vs))))]) = frame ?chunk"
    by (rule final_buffer [OF buf len lt])
  have idx: "?r < length (?chunk @ drop ?r (buffer_send vs))"
    unfolding length_append len using buf lt by simp
  have unf: "final_chunk bs img vs =
      io_bind (ser_write (frame ?chunk)) (\<lambda>k.
                  if k = 0 then io_return (Some 2)
                  else
                    io_bind (ser_read 2) (\<lambda>r.
                      if length r = 2 \<and> uint (last r) = crc (butlast r)
                      then io_return (fw_status_check r)
                      else io_return (Some 0)))"
    unfolding final_chunk_def Let_def using rem idx b2 by (simp only: if_True if_False not_not not_True_eq_False)
  show ?thesis
    unfolding unf using s
    by (simp add: io_bind_def io_return_def ser_write_def ser_read_def next_defs ch
        split: sum.splits list.splits)
qed


lemma fst_except_serial_return: "fst (except_serial m (io_return v) s) = fst (m s)"
  by (simp add: except_serial_def io_return_def split: prod.splits sum.splits)

lemma snd_except_serial_return:
  "snd (except_serial m (io_return v) s) =
     (case snd (m s) of Inl e \<Rightarrow> if is_serial_exn e then Inr v else Inl e | Inr u \<Rightarrow> Inr u)"
  by (simp add: except_serial_def io_return_def split: prod.splits sum.splits)

lemma flash_prefix:
  assumes "is_open s" "write_script s = []"
    and "read_script s = Inr (status_frame 0x75) # Inr (status_frame 0x75) # rest"
    and "0 < ss" "length img < 2 ^ 32"
  shows "\<exists>s2. is_open s2 \<and> write_script s2 = [] \<and> read_script s2 = rest
      \<and> open_script s2 = open_script s
      \<and> writes_of (trace s2) = writes_of (trace s) @ [[0x01, 0xfe], size_frame (length img)]
      \<and> flash_fw_stage ss img s =
          except_serial
            (io_bind
               (chunk_loop (length img div (ss * 1024)) (ss * 1024) img
                  \<lparr>buffer_send = replicate (ss * 1024 + 1) 0, fpos = 0, x = None\<rparr>)
               (\<lambda>ex. case ex of
                  Return v \<Rightarrow> io_return v
                | Done vs \<Rightarrow> final_chunk (ss * 1024) img vs))
            (io_return (Some 0)) s2"
proof -
  define s2 where "s2 = s\<lparr>write_script := tl (write_script s),
      trace := trace s @ [EvWrite [0x01, 0xfe]], read_script := tl (read_script s),
      trace := trace s @ [EvWrite [0x01, 0xfe]] @ [EvRead 2],
      write_script := tl (tl (write_script s)),
      trace := trace s @ [EvWrite [0x01, 0xfe]] @ [EvRead 2] @ [EvWrite (size_frame (length img))],
      read_script := tl (tl (read_script s)),
      trace := trace s @ [EvWrite [0x01, 0xfe]] @ [EvRead 2] @ [EvWrite (size_frame (length img))]
         @ [EvRead 2]\<rparr>"
  have "flash_fw_stage ss img s =
          except_serial
            (io_bind
               (chunk_loop (length img div (ss * 1024)) (ss * 1024) img
                  \<lparr>buffer_send = replicate (ss * 1024 + 1) 0, fpos = 0, x = None\<rparr>)
               (\<lambda>ex. case ex of
                  Return v \<Rightarrow> io_return v
                | Done vs \<Rightarrow> final_chunk (ss * 1024) img vs))
            (io_return (Some 0)) s2"
    using assms
    by (simp add: flash_fw_stage_def to_bytes4_def except_serial_def io_bind_def io_return_def
        io_raise_def ensure_open_def ser_write_def ser_read_def Let_def next_defs
        status_frame_valid size_frame_def frame_def s2_def)
  moreover have "is_open s2 \<and> write_script s2 = [] \<and> read_script s2 = rest
      \<and> open_script s2 = open_script s
      \<and> writes_of (trace s2) = writes_of (trace s) @ [[0x01, 0xfe], size_frame (length img)]"
    using assms by (simp add: s2_def)
  ultimately show ?thesis by blast
qed


lemma concat_full_chunks:
  "concat (map (\<lambda>j. take bs (drop (j * bs) xs)) [0..<k]) = take (k * bs) xs"
proof (induction k)
  case 0
  then show ?case by simp
next
  case (Suc k)
  have "take (k * bs) xs @ take bs (drop (k * bs) xs) = take (k * bs + bs) xs"
    by (simp add: take_add)
  then show ?case using Suc by (simp add: add.commute)
qed

lemma full_chunk_length:
  assumes "j < length xs div bs"
  shows "length (take bs (drop (j * bs) xs)) = bs"
proof -
  have "Suc j * bs \<le> length xs div bs * bs" using assms by (simp add: Suc_leI mult_le_mono1 del: mult_Suc)
  also have "\<dots> \<le> length xs" by simp
  finally show ?thesis by simp
qed

lemma spec_chunks_facts:
  "length (spec_chunks bs img) = length img div bs + (if length img mod bs \<noteq> 0 then 1 else 0)"
  "take (length img div bs) (spec_chunks bs img) =
     map (\<lambda>j. take bs (drop (j * bs) img)) [0..<length img div bs]"
  "list_all (\<lambda>c. length c = bs) (take (length img div bs) (spec_chunks bs img))"
  "concat (spec_chunks bs img) = img"
  "sum_list (map length (spec_chunks bs img)) = length img"
proof -
  show "length (spec_chunks bs img) = length img div bs + (if length img mod bs \<noteq> 0 then 1 else 0)"
    by (simp add: spec_chunks_def)
  show "take (length img div bs) (spec_chunks bs img) =
     map (\<lambda>j. take bs (drop (j * bs) img)) [0..<length img div bs]"
    by (simp add: spec_chunks_def)
  show "list_all (\<lambda>c. length c = bs) (take (length img div bs) (spec_chunks bs img))"
    using full_chunk_length [of _ img bs] by (simp add: spec_chunks_def list_all_iff del: length_take)
  show c: "concat (spec_chunks bs img) = img"
  proof (cases "length img mod bs = 0")
    case True
    then have "length img div bs * bs = length img" by auto
    then show ?thesis using True by (simp add: spec_chunks_def concat_full_chunks)
  next
    case False
    then show ?thesis by (simp add: spec_chunks_def concat_full_chunks)
  qed
  show "sum_list (map length (spec_chunks bs img)) = length img"
    using arg_cong [OF c, of length] by (simp only: length_concat)
qed

lemma flash_all_acked:
  assumes "0 < ss" "length img < 2 ^ 32" "is_open s" "write_script s = []"
    and "read_script s =
      replicate (2 + length img div (ss * 1024)) (Inr (status_frame 0x75)) @ rest"
  shows "writes_of (trace (fst (flash_fw_stage ss img s))) =
      writes_of (trace s) @
        [0x01, 0xfe] # size_frame (length img) # map frame (spec_chunks (ss * 1024) img)"
    and "length img mod (ss * 1024) = 0 \<Longrightarrow> snd (flash_fw_stage ss img s) =
      (if length img = 0 then Inl UnboundLocalError else Inr (Some 4))"
proof -
  define bs where "bs = ss * 1024"
  define k where "k = length img div bs"
  define vs0 where "vs0 = \<lparr>buffer_send = replicate (bs + 1) 0, fpos = 0, x = None\<rparr>"
  have rs: "read_script s = Inr (status_frame 0x75) # Inr (status_frame 0x75)
      # (replicate k (Inr (status_frame 0x75)) @ rest)"
    using assms(5) by (simp add: k_def bs_def)
  from flash_prefix [OF assms(3,4) rs assms(1,2)]
  obtain s2 where s2: "is_open s2" "write_script s2 = []"
      "read_script s2 = replicate k (Inr (status_frame 0x75)) @ rest"
    and w2: "writes_of (trace s2) = writes_of (trace s) @ [[0x01, 0xfe], size_frame (length img)]"
    and fl: "flash_fw_stage ss img s =
          except_serial
            (io_bind (chunk_loop k bs img vs0)
               (\<lambda>ex. case ex of
                  Return v \<Rightarrow> io_return v
                | Done vs \<Rightarrow> final_chunk bs img vs))
            (io_return (Some 0)) s2"
    unfolding k_def bs_def vs0_def by blast
  have b0: "length (buffer_send vs0) = Suc bs" by (simp add: vs0_def)
  have f0: "fpos vs0 + k * bs \<le> length img" by (simp add: vs0_def k_def)
  from chunk_loop_acks [OF s2 b0 f0, of 0]
  obtain s3 vs3 where loop: "chunk_loop k bs img vs0 s2 = (s3, Inr (Done vs3))"
    and s3: "is_open s3" "write_script s3 = []"
    and w3: "writes_of (trace s3) =
        writes_of (trace s2) @ map (\<lambda>j. frame (take bs (drop (j * bs) img))) [0..<k]"
    and v3: "length (buffer_send vs3) = Suc bs" "fpos vs3 = k * bs"
      "x vs3 = (if k = 0 then None else Some 4)"
    by (auto simp: io_return_def vs0_def)
  have body: "io_bind (chunk_loop k bs img vs0)
               (\<lambda>ex. case ex of
                  Return v \<Rightarrow> io_return v
                | Done vs \<Rightarrow> final_chunk bs img vs) s2 = final_chunk bs img vs3 s3"
    unfolding io_bind_def loop by simp
  have fl1: "fst (flash_fw_stage ss img s) = fst (final_chunk bs img vs3 s3)"
    by (simp only: fl fst_except_serial_return body)
  have fl2: "snd (flash_fw_stage ss img s) =
      (case snd (final_chunk bs img vs3 s3) of
         Inl e \<Rightarrow> if is_serial_exn e then Inr (Some 0) else Inl e
       | Inr u \<Rightarrow> Inr u)"
    by (simp only: fl snd_except_serial_return body)
  have bs: "0 < bs" using assms(1) by (simp add: bs_def)
  have "writes_of (trace (fst (flash_fw_stage ss img s))) =
      writes_of (trace s) @
        [0x01, 0xfe] # size_frame (length img) # map frame (spec_chunks bs img)"
  proof (cases "length img mod bs = 0")
    case True
    then have "fst (final_chunk bs img vs3 s3) = s3"
      by (simp add: final_chunk_def io_raise_def io_return_def split: option.splits)
    then show ?thesis
      using True by (simp add: fl1 w3 w2 spec_chunks_def o_def k_def)
  next
    case False
    then have "0 < length img mod bs" by simp
    from final_chunk_remainder [OF s3 v3(1) v3(2) [unfolded k_def] this bs]
    show ?thesis
      using False by (simp add: fl1 w3 w2 spec_chunks_def o_def k_def)
  qed
  then show "writes_of (trace (fst (flash_fw_stage ss img s))) =
      writes_of (trace s) @
        [0x01, 0xfe] # size_frame (length img) # map frame (spec_chunks (ss * 1024) img)"
    by (simp only: bs_def)
  show "snd (flash_fw_stage ss img s) =
      (if length img = 0 then Inl UnboundLocalError else Inr (Some 4))"
    if "length img mod (ss * 1024) = 0"
  proof -
    have m: "length img mod bs = 0" using that by (simp add: bs_def)
    then have "length img = k * bs" by (auto simp: k_def)
    then have "k = 0 \<longleftrightarrow> length img = 0" using bs by simp
    then show ?thesis using m v3(3)
      by (auto simp add: fl2 final_chunk_def io_raise_def io_return_def is_serial_exn_def)
  qed
qed


lemma flash_abort_at:
  assumes "0 < ss" "length img < 2 ^ 32" "is_open s" "write_script s = []"
    and "k < length img div (ss * 1024)" and "st \<noteq> 0x75"
    and "read_script s =
      replicate (2 + k) (Inr (status_frame 0x75)) @ Inr (status_frame st) # rest"
  shows "\<exists>s'. flash_fw_stage ss img s =
        (s', if st = 0x1f \<or> st = 0x21 \<or> st = 0x20 then Inr (Some 0) else Inl TypeError)
      \<and> is_open s' \<and> write_script s' = [] \<and> read_script s' = rest
      \<and> open_script s' = open_script s
      \<and> writes_of (trace s') =
          writes_of (trace s) @
            [0x01, 0xfe] # size_frame (length img)
            # map (\<lambda>j. frame (take (ss * 1024) (drop (j * (ss * 1024)) img))) [0..<Suc k]"
proof -
  define bs where "bs = ss * 1024"
  define vs0 where "vs0 = \<lparr>buffer_send = replicate (bs + 1) 0, fpos = 0, x = None\<rparr>"
  obtain m where m: "length img div bs = k + Suc m"
    using assms(5) less_imp_Suc_add by (auto simp: bs_def)
  have rs: "read_script s = Inr (status_frame 0x75) # Inr (status_frame 0x75)
      # (replicate k (Inr (status_frame 0x75)) @ Inr (status_frame st) # rest)"
    using assms(7) by simp
  from flash_prefix [OF assms(3,4) rs assms(1,2)]
  obtain s2 where s2: "is_open s2" "write_script s2 = []"
      "read_script s2 = replicate k (Inr (status_frame 0x75)) @ Inr (status_frame st) # rest"
    and o2: "open_script s2 = open_script s"
    and w2: "writes_of (trace s2) = writes_of (trace s) @ [[0x01, 0xfe], size_frame (length img)]"
    and fl: "flash_fw_stage ss img s =
          except_serial
            (io_bind (chunk_loop (k + Suc m) bs img vs0)
               (\<lambda>ex. case ex of
                  Return v \<Rightarrow> io_return v
                | Done vs \<Rightarrow> final_chunk bs img vs))
            (io_return (Some 0)) s2"
    unfolding bs_def vs0_def m [unfolded bs_def, symmetric] by blast
  have le: "Suc k * bs \<le> length img"
  proof -
    have "Suc k * bs \<le> length img div bs * bs" unfolding m by (simp del: mult_Suc)
    also have "\<dots> \<le> length img" by simp
    finally show ?thesis .
  qed
  have b0: "length (buffer_send vs0) = Suc bs" by (simp add: vs0_def)
  have f0: "fpos vs0 + k * bs \<le> length img" using le by (simp add: vs0_def)
  from chunk_loop_acks [OF s2 b0 f0, of "Suc m"]
  obtain s3 vs3 where loop: "chunk_loop (k + Suc m) bs img vs0 s2 = chunk_loop (Suc m) bs img vs3 s3"
    and s3: "is_open s3" "write_script s3 = []" "read_script s3 = Inr (status_frame st) # rest"
    and o3: "open_script s3 = open_script s2"
    and w3: "writes_of (trace s3) =
        writes_of (trace s2) @ map (\<lambda>j. frame (take bs (drop (j * bs) img))) [0..<k]"
    and v3: "length (buffer_send vs3) = Suc bs" "fpos vs3 = k * bs"
    by (auto simp: vs0_def)
  have full: "fpos vs3 + bs \<le> length img" using le v3(2) by simp
  from chunk_loop_step [OF s3 v3(1) full, of m] assms(6)
  obtain s4 where s4: "is_open s4" "write_script s4 = []" "read_script s4 = rest"
    and o4: "open_script s4 = open_script s3"
    and w4: "writes_of (trace s4) = writes_of (trace s3) @ [frame (take bs (drop (k * bs) img))]"
    and step: "chunk_loop (Suc m) bs img vs3 s3 =
        (if st = 0x1f \<or> st = 0x21 \<or> st = 0x20 then (s4, Inr (Return (Some 0)))
         else (s4, Inl TypeError))"
    unfolding v3(2) by auto
  have res: "flash_fw_stage ss img s =
        (s4, if st = 0x1f \<or> st = 0x21 \<or> st = 0x20 then Inr (Some 0) else Inl TypeError)"
    unfolding fl except_serial_def io_bind_def loop step
    by (simp add: io_return_def is_serial_exn_def)
  have w: "writes_of (trace s4) =
          writes_of (trace s) @
            [0x01, 0xfe] # size_frame (length img)
            # map (\<lambda>j. frame (take bs (drop (j * bs) img))) [0..<Suc k]"
    by (simp add: w4 w3 w2)
  show ?thesis
    using res s4 o4 o3 o2 w unfolding bs_def
    by (intro exI [of _ s4]) simp
qed

lemma get_sector_size_step:
  assumes "is_open s" "write_script s = []" "read_script s = Inr (status_frame S) # rest"
  shows "\<exists>s1. get_sector_size_stage s = (s1, Inr (Some (unat S)))
      \<and> is_open s1 \<and> write_script s1 = [] \<and> read_script s1 = rest
      \<and> writes_of (trace s1) = writes_of (trace s) @ [[0x03, 0xfc]]"
  using assms
  by (simp add: get_sector_size_stage_def io_defs next_defs status_frame_valid)

lemma open_port_ok:
  assumes "next_open s0"
  shows "\<exists>s. open_port s0 = (s, True) \<and> is_open s \<and> write_script s = write_script s0
     \<and> read_script s = read_script s0 \<and> writes_of (trace s) = writes_of (trace s0)"
  using assms by (simp add: io_defs)

lemma update_type_error:
  assumes "S \<noteq> 0" "length img < 2 ^ 32" "k < length img div (unat S * 1024)"
    and "st \<notin> {0x75, 0x1f, 0x21, 0x20}"
    and "next_open s0" "write_script s0 = []"
    and "read_script s0 = Inr (status_frame S)
        # replicate (2 + k) (Inr (status_frame 0x75)) @ Inr (status_frame st) # rest"
  shows "snd (update (Some img) s0) = False"
    and "\<not> is_open (fst (update (Some img) s0))"
    and "writes_of (trace (fst (update (Some img) s0))) =
          writes_of (trace s0) @
            [0x03, 0xfc] # [0x01, 0xfe] # size_frame (length img)
            # map (\<lambda>j. frame (take (unat S * 1024) (drop (j * (unat S * 1024)) img))) [0..<Suc k]"
proof -
  from open_port_ok [OF assms(5)] obtain s where op: "open_port s0 = (s, True)"
    and s: "is_open s" "write_script s = []"
      "read_script s = Inr (status_frame S)
        # replicate (2 + k) (Inr (status_frame 0x75)) @ Inr (status_frame st) # rest"
    and w: "writes_of (trace s) = writes_of (trace s0)"
    using assms(6,7) by auto
  from get_sector_size_step [OF s] obtain s1 where
    ss: "get_sector_size_stage s = (s1, Inr (Some (unat S)))"
    and s1: "is_open s1" "write_script s1 = []"
      "read_script s1 = replicate (2 + k) (Inr (status_frame 0x75)) @ Inr (status_frame st) # rest"
    and w1: "writes_of (trace s1) = writes_of (trace s) @ [[0x03, 0xfc]]"
    by blast
  have pos: "0 < unat S" using assms(1) by (simp add: unat_gt_0)
  have ne: "st \<noteq> 0x75" using assms(4) by simp
  from flash_abort_at [OF pos assms(2) s1(1,2) assms(3) ne s1(3)] assms(4)
  obtain s2 where fl: "flash_fw_stage (unat S) img s1 = (s2, Inl TypeError)"
    and w2: "writes_of (trace s2) =
          writes_of (trace s1) @
            [0x01, 0xfe] # size_frame (length img)
            # map (\<lambda>j. frame (take (unat S * 1024) (drop (j * (unat S * 1024)) img))) [0..<Suc k]"
    by auto
  have "flash_retry 3 (unat S) img s1 = (s2, Inl TypeError)"
    by (simp add: numeral_3_eq_3 io_bind_def fl)
  then have up: "update (Some img) s0 = (ser_close s2, False)"
    by (simp add: update_def op io_bind_def ss)
  show "snd (update (Some img) s0) = False" by (simp add: up)
  show "\<not> is_open (fst (update (Some img) s0))" by (simp add: up ser_close_def)
  show "writes_of (trace (fst (update (Some img) s0))) =
          writes_of (trace s0) @
            [0x03, 0xfc] # [0x01, 0xfe] # size_frame (length img)
            # map (\<lambda>j. frame (take (unat S * 1024) (drop (j * (unat S * 1024)) img))) [0..<Suc k]"
    by (simp add: up ser_close_def w2 w1 w)
qed

lemma status_frame_numerals:
  "status_frame 0x75 = [0x75, 0x8a]" "status_frame 0x20 = [0x20, 0xdf]"
  "status_frame 0x00 = [0x00, 0xff]" "status_frame 0x01 = [0x01, 0xfe]"
  by (simp_all add: status_frame_def frame_def crc_def)

lemma status_frame_more:
  "status_frame 0x1f = [0x1f, 0xe0]" "status_frame 0x21 = [0x21, 0xde]"
  by (simp_all add: status_frame_def frame_def crc_def)

lemma replicate_numerals:
  "replicate 2 y = [y, y]" "replicate 3 y = [y, y, y]"
  by (simp_all add: numeral_2_eq_2 numeral_3_eq_3)

section \<open>Firmware transfer: the claims\<close>

text \<open>
  C2, as the claim states it, fails. With sector size 1 and a 2048-byte image (two full
  chunks), a device that answers the first chunk with the write-error status \<open>0x21\<close>
  stops the transfer after one chunk of 1024 bytes. With the device-reported sector size
  0 the transfer raises \<open>ZeroDivisionError\<close> after the size frame and sends no chunk of
  the one-byte image at all.
\<close>

theorem chunking_aborted_or_zero_sector:
  "length (replicate 2048 (0 :: byte)) div (1 * 1024) = 2
   \<and> writes_of (trace (fst (flash_fw_stage 1 (replicate 2048 0)
        \<lparr>is_open = True, open_script = [], write_script = [],
         read_script = [Inr [0x75, 0x8a], Inr [0x75, 0x8a], Inr [0x21, 0xde]], trace = []\<rparr>)))
      = [[0x01, 0xfe], size_frame 2048, frame (replicate 1024 0)]
   \<and> snd (flash_fw_stage 0 [0x00]
        \<lparr>is_open = True, open_script = [], write_script = [],
         read_script = [Inr [0x75, 0x8a], Inr [0x75, 0x8a]], trace = []\<rparr>)
      = Inl ZeroDivisionError
   \<and> writes_of (trace (fst (flash_fw_stage 0 [0x00]
        \<lparr>is_open = True, open_script = [], write_script = [],
         read_script = [Inr [0x75, 0x8a], Inr [0x75, 0x8a]], trace = []\<rparr>)))
      = [[0x01, 0xfe], size_frame 1]"
proof -
  have a: "writes_of (trace (fst (flash_fw_stage 1 (replicate 2048 0)
        \<lparr>is_open = True, open_script = [], write_script = [],
         read_script = [Inr [0x75, 0x8a], Inr [0x75, 0x8a], Inr [0x21, 0xde]], trace = []\<rparr>)))
      = [[0x01, 0xfe], size_frame 2048, frame (replicate 1024 0)]"
    using flash_abort_at [of 1 "replicate 2048 0" "\<lparr>is_open = True, open_script = [],
         write_script = [],
         read_script = [Inr [0x75, 0x8a], Inr [0x75, 0x8a], Inr [0x21, 0xde]], trace = []\<rparr>"
         0 "0x21" "[]"]
    by (auto simp add: status_frame_numerals status_frame_more replicate_numerals)
  have b: "flash_fw_stage 0 [0x00]
        \<lparr>is_open = True, open_script = [], write_script = [],
         read_script = [Inr [0x75, 0x8a], Inr [0x75, 0x8a]], trace = []\<rparr>
      = (\<lparr>is_open = True, open_script = [], write_script = [], read_script = [],
          trace = [EvWrite [0x01, 0xfe], EvRead 2, EvWrite (size_frame 1), EvRead 2]\<rparr>,
         Inl ZeroDivisionError)"
    by (simp add: flash_fw_stage_def to_bytes4_def io_defs next_defs size_frame_def frame_def
        crc_def is_serial_exn_def)
  show ?thesis using a by (simp add: b)
qed

text \<open>
  C2, amended. Let the sector size \<open>ss\<close> be at least 1 and the image shorter than
  \<open>2 ^ 32\<close> bytes (its size fits the four-byte size field), on an open port that accepts
  every write, with a device that acknowledges the update request, the size frame and
  every full chunk with a checksum-valid \<open>0x75\<close>. Then after the update request and the
  size frame the transfer writes exactly the frames of the specification's chunks:
  \<open>length img div (ss * 1024)\<close> full chunks of \<open>ss * 1024\<close> bytes in image order, and
  one final partial chunk exactly when \<open>length img mod (ss * 1024) \<noteq> 0\<close>; each frame is
  a chunk followed by its checksum byte, the chunks together are the image and their
  lengths add up to \<open>length img\<close>.
\<close>

theorem flash_chunking:
  assumes "0 < ss" "length img < 2 ^ 32" "is_open s" "write_script s = []"
    and "read_script s =
      replicate (2 + length img div (ss * 1024)) (Inr (status_frame 0x75)) @ rest"
  shows "writes_of (trace (fst (flash_fw_stage ss img s))) =
      writes_of (trace s) @
        [0x01, 0xfe] # size_frame (length img) # map frame (spec_chunks (ss * 1024) img)
    \<and> length (spec_chunks (ss * 1024) img) =
        length img div (ss * 1024) + (if length img mod (ss * 1024) \<noteq> 0 then 1 else 0)
    \<and> take (length img div (ss * 1024)) (spec_chunks (ss * 1024) img) =
        map (\<lambda>j. take (ss * 1024) (drop (j * (ss * 1024)) img)) [0..<length img div (ss * 1024)]
    \<and> list_all (\<lambda>c. length c = ss * 1024)
        (take (length img div (ss * 1024)) (spec_chunks (ss * 1024) img))
    \<and> concat (spec_chunks (ss * 1024) img) = img
    \<and> sum_list (map length (spec_chunks (ss * 1024) img)) = length img"
  using flash_all_acked(1) [OF assms] spec_chunks_facts [where bs = "ss * 1024" and img = img]
  by simp

theorem flash_chunking_witness:
  "writes_of (trace (fst (flash_fw_stage 1 (replicate 1500 0)
      \<lparr>is_open = True, open_script = [], write_script = [],
       read_script = replicate 3 (Inr (status_frame 0x75)), trace = []\<rparr>))) =
      [0x01, 0xfe] # size_frame 1500 # map frame (spec_chunks 1024 (replicate 1500 0))
   \<and> length (spec_chunks 1024 (replicate 1500 (0 :: byte))) = 2
   \<and> sum_list (map length (spec_chunks 1024 (replicate 1500 (0 :: byte)))) = 1500"
  using flash_chunking [of 1 "replicate 1500 0" "\<lparr>is_open = True, open_script = [],
       write_script = [], read_script = replicate 3 (Inr (status_frame 0x75)), trace = []\<rparr>" "[]"]
  by simp

text \<open>
  C3, evaluated where it fails. A 2048-byte image with sector size 1 has two full chunks.
  The device acknowledges the update request, the size frame and the first chunk, and
  answers the second, last chunk with the checksum-valid status \<open>0x20\<close>, which the
  classifier maps to 1, the value \<open>update\<close> takes for success. The transfer returns 0.
\<close>

theorem complete_status_in_loop:
  "fw_status_check [0x20, 0xdf] = Some 1
   \<and> snd (flash_fw_stage 1 (replicate 2048 0)
        \<lparr>is_open = True, open_script = [], write_script = [],
         read_script = [Inr [0x75, 0x8a], Inr [0x75, 0x8a], Inr [0x75, 0x8a], Inr [0x20, 0xdf]],
         trace = []\<rparr>) = Inr (Some 0)
   \<and> writes_of (trace (fst (flash_fw_stage 1 (replicate 2048 0)
        \<lparr>is_open = True, open_script = [], write_script = [],
         read_script = [Inr [0x75, 0x8a], Inr [0x75, 0x8a], Inr [0x75, 0x8a], Inr [0x20, 0xdf]],
         trace = []\<rparr>)))
      = [[0x01, 0xfe], size_frame 2048, frame (replicate 1024 0), frame (replicate 1024 0)]"
  using flash_abort_at [of 1 "replicate 2048 0" "\<lparr>is_open = True, open_script = [],
         write_script = [],
         read_script = [Inr [0x75, 0x8a], Inr [0x75, 0x8a], Inr [0x75, 0x8a], Inr [0x20, 0xdf]],
         trace = []\<rparr>" 1 "0x20" "[]"]
  by (auto simp add: status_frame_numerals fw_status_check_def replicate_numerals)

text \<open>
  C6, as the claim states it, fails. A 1024-byte image with sector size 1 is one full
  chunk and no partial chunk. The device answers this last frame with the checksum-valid
  status \<open>0x1f\<close>, which the classifier maps to 3 (bad CRC); the outcome of the transfer
  is 0.
\<close>

theorem bad_crc_status_last_chunk:
  "length (replicate 1024 (0 :: byte)) mod (1 * 1024) = 0
   \<and> fw_status_check [0x1f, 0xe0] = Some 3
   \<and> snd (flash_fw_stage 1 (replicate 1024 0)
        \<lparr>is_open = True, open_script = [], write_script = [],
         read_script = [Inr [0x75, 0x8a], Inr [0x75, 0x8a], Inr [0x1f, 0xe0]], trace = []\<rparr>)
      = Inr (Some 0)"
  using flash_abort_at [of 1 "replicate 1024 0" "\<lparr>is_open = True, open_script = [],
         write_script = [],
         read_script = [Inr [0x75, 0x8a], Inr [0x75, 0x8a], Inr [0x1f, 0xe0]], trace = []\<rparr>"
         0 "0x1f" "[]"]
  by (auto simp add: status_frame_numerals status_frame_more fw_status_check_def replicate_numerals)

text \<open>
  C6, amended. For an image whose length is a positive multiple of the chunk size, with a
  sector size of at least 1, a size below \<open>2 ^ 32\<close> and an open port that accepts every
  write: if the device acknowledges the update request, the size frame and every full
  chunk with a checksum-valid \<open>0x75\<close>, the outcome of the transfer is the status code
  of the last full chunk's response, 4, and no earlier or unset value; if it answers a
  full chunk with the checksum-valid status \<open>0x1f\<close> or \<open>0x21\<close>, the transfer stops
  there with outcome 0, whatever the code of that status: the frame of that chunk is the
  last thing it writes.
\<close>

theorem exact_multiple_outcome:
  assumes "0 < ss" "length img < 2 ^ 32" "is_open s" "write_script s = []"
    and "length img mod (ss * 1024) = 0" "0 < length img"
  shows "(read_script s =
            replicate (2 + length img div (ss * 1024)) (Inr (status_frame 0x75)) @ rest \<longrightarrow>
          snd (flash_fw_stage ss img s) = Inr (fw_status_check (status_frame 0x75))
          \<and> fw_status_check (status_frame 0x75) = Some 4)
     \<and> (k < length img div (ss * 1024) \<and> (st = 0x1f \<or> st = 0x21)
          \<and> read_script s =
             replicate (2 + k) (Inr (status_frame 0x75)) @ Inr (status_frame st) # rest \<longrightarrow>
          snd (flash_fw_stage ss img s) = Inr (Some 0)
          \<and> writes_of (trace (fst (flash_fw_stage ss img s))) =
              writes_of (trace s) @
                [0x01, 0xfe] # size_frame (length img)
                # map (\<lambda>j. frame (take (ss * 1024) (drop (j * (ss * 1024)) img))) [0..<Suc k])"
proof (intro conjI impI)
  assume rs: "read_script s =
      replicate (2 + length img div (ss * 1024)) (Inr (status_frame 0x75)) @ rest"
  show "fw_status_check (status_frame 0x75) = Some 4"
    by (simp add: fw_status_check_def status_frame_valid)
  then show "snd (flash_fw_stage ss img s) = Inr (fw_status_check (status_frame 0x75))"
    using flash_all_acked(2) [OF assms(1,2,3,4) rs assms(5)] assms(6) by simp
next
  assume h: "k < length img div (ss * 1024) \<and> (st = 0x1f \<or> st = 0x21)
      \<and> read_script s =
         replicate (2 + k) (Inr (status_frame 0x75)) @ Inr (status_frame st) # rest"
  then have ne: "st \<noteq> 0x75" by auto
  from h flash_abort_at [OF assms(1,2,3,4) _ ne, of k rest]
  obtain s' where ab: "flash_fw_stage ss img s = (s', Inr (Some 0))"
    and w: "writes_of (trace s') =
        writes_of (trace s) @
          [0x01, 0xfe] # size_frame (length img)
          # map (\<lambda>j. frame (take (ss * 1024) (drop (j * (ss * 1024)) img))) [0..<Suc k]"
    by auto
  show "snd (flash_fw_stage ss img s) = Inr (Some 0)" by (simp add: ab)
  show "writes_of (trace (fst (flash_fw_stage ss img s))) =
      writes_of (trace s) @
        [0x01, 0xfe] # size_frame (length img)
        # map (\<lambda>j. frame (take (ss * 1024) (drop (j * (ss * 1024)) img))) [0..<Suc k]"
    by (simp only: ab fst_conv w)
qed

theorem exact_multiple_outcome_witness:
  "snd (flash_fw_stage 1 (replicate 1024 0)
        \<lparr>is_open = True, open_script = [], write_script = [],
         read_script = [Inr [0x75, 0x8a], Inr [0x75, 0x8a], Inr [0x75, 0x8a]],
         trace = []\<rparr>) = Inr (Some 4)
   \<and> snd (flash_fw_stage 1 (replicate 1024 0)
        \<lparr>is_open = True, open_script = [], write_script = [],
         read_script = [Inr [0x75, 0x8a], Inr [0x75, 0x8a], Inr [0x21, 0xde]],
         trace = []\<rparr>) = Inr (Some 0)
   \<and> writes_of (trace (fst (flash_fw_stage 1 (replicate 1024 0)
        \<lparr>is_open = True, open_script = [], write_script = [],
         read_script = [Inr [0x75, 0x8a], Inr [0x75, 0x8a], Inr [0x21, 0xde]],
         trace = []\<rparr>))) = [[0x01, 0xfe], size_frame 1024, frame (replicate 1024 0)]"
proof -
  have a: "snd (flash_fw_stage 1 (replicate 1024 0)
        \<lparr>is_open = True, open_script = [], write_script = [],
         read_script = [Inr [0x75, 0x8a], Inr [0x75, 0x8a], Inr [0x75, 0x8a]],
         trace = []\<rparr>) = Inr (Some 4)"
    using exact_multiple_outcome [of 1 "replicate 1024 0" "\<lparr>is_open = True,
         open_script = [], write_script = [],
         read_script = [Inr [0x75, 0x8a], Inr [0x75, 0x8a], Inr [0x75, 0x8a]],
         trace = []\<rparr>" "[]" 0 0]
    by (simp add: status_frame_numerals replicate_numerals)
  have b: "snd (flash_fw_stage 1 (replicate 1024 0)
        \<lparr>is_open = True, open_script = [], write_script = [],
         read_script = [Inr [0x75, 0x8a], Inr [0x75, 0x8a], Inr [0x21, 0xde]],
         trace = []\<rparr>) = Inr (Some 0)
     \<and> writes_of (trace (fst (flash_fw_stage 1 (replicate 1024 0)
        \<lparr>is_open = True, open_script = [], write_script = [],
         read_script = [Inr [0x75, 0x8a], Inr [0x75, 0x8a], Inr [0x21, 0xde]],
         trace = []\<rparr>))) = [[0x01, 0xfe], size_frame 1024, frame (replicate 1024 0)]"
    using exact_multiple_outcome [of 1 "replicate 1024 0" "\<lparr>is_open = True,
         open_script = [], write_script = [],
         read_script = [Inr [0x75, 0x8a], Inr [0x75, 0x8a], Inr [0x21, 0xde]],
         trace = []\<rparr>" "[]" 0 "0x21"]
    by (simp add: status_frame_numerals status_frame_more replicate_numerals)
  show ?thesis by (rule conjI [OF a b])
qed

text \<open>
  C10. Let the device report a sector size \<open>S \<noteq> 0\<close>, acknowledge the update request, the
  size frame and the first \<open>k\<close> full chunks, and answer the next full chunk with a
  checksum-valid response whose status \<open>st\<close> is none of \<open>0x75\<close>, \<open>0x1f\<close>, \<open>0x21\<close>,
  \<open>0x20\<close>. Then the classifier returns \<open>None\<close>, the transfer raises \<open>TypeError\<close>, and
  \<open>update\<close> returns \<open>False\<close> with the port closed, having written one update request and
  nothing after the rejected chunk: no further attempt is made.
\<close>

theorem unknown_status_type_error:
  assumes "S \<noteq> 0" "length img < 2 ^ 32" "k < length img div (unat S * 1024)"
    and "st \<notin> {0x75, 0x1f, 0x21, 0x20}"
    and "is_open s" "write_script s = []"
    and "read_script s =
        replicate (2 + k) (Inr (status_frame 0x75)) @ Inr (status_frame st) # rest"
    and "next_open s0" "write_script s0 = []"
    and "read_script s0 = Inr (status_frame S) # read_script s"
  shows "fw_status_check (status_frame st) = None
    \<and> snd (flash_fw_stage (unat S) img s) = Inl TypeError
    \<and> snd (update (Some img) s0) = False
    \<and> \<not> is_open (fst (update (Some img) s0))
    \<and> writes_of (trace (fst (update (Some img) s0))) =
          writes_of (trace s0) @
            [0x03, 0xfc] # [0x01, 0xfe] # size_frame (length img)
            # map (\<lambda>j. frame (take (unat S * 1024) (drop (j * (unat S * 1024)) img))) [0..<Suc k]"
proof -
  have pos: "0 < unat S" using assms(1) by (simp add: unat_gt_0)
  have ne: "st \<noteq> 0x75" using assms(4) by simp
  have rs0: "read_script s0 = Inr (status_frame S)
        # replicate (2 + k) (Inr (status_frame 0x75)) @ Inr (status_frame st) # rest"
    using assms(7,10) by simp
  have "fw_status_check (status_frame st) = None"
    using assms(4) by (simp add: fw_status_check_def status_frame_valid)
  moreover have "snd (flash_fw_stage (unat S) img s) = Inl TypeError"
    using flash_abort_at [OF pos assms(2,5,6,3) ne assms(7)] assms(4) by auto
  ultimately show ?thesis
    using update_type_error [OF assms(1,2,3,4,8,9) rs0] by simp
qed

theorem unknown_status_type_error_witness:
  "snd (flash_fw_stage 1 (replicate 1024 0)
        \<lparr>is_open = True, open_script = [], write_script = [],
         read_script = [Inr [0x75, 0x8a], Inr [0x75, 0x8a], Inr [0x00, 0xff]], trace = []\<rparr>)
      = Inl TypeError
   \<and> snd (update (Some (replicate 1024 0))
        \<lparr>is_open = False, open_script = [], write_script = [],
         read_script = [Inr [0x01, 0xfe], Inr [0x75, 0x8a], Inr [0x75, 0x8a], Inr [0x00, 0xff]],
         trace = []\<rparr>) = False"
  using unknown_status_type_error [of 1 "replicate 1024 0" 0 0
        "\<lparr>is_open = True, open_script = [], write_script = [],
         read_script = [Inr [0x75, 0x8a], Inr [0x75, 0x8a], Inr [0x00, 0xff]], trace = []\<rparr>"
        "[]"
        "\<lparr>is_open = False, open_script = [], write_script = [],
         read_script = [Inr [0x01, 0xfe], Inr [0x75, 0x8a], Inr [0x75, 0x8a], Inr [0x00, 0xff]],
         trace = []\<rparr>"]
  by (simp add: status_frame_numerals replicate_numerals next_defs)

section \<open>Closing the port\<close>

lemma serial_only_upd [simp]:
  "serial_only (s\<lparr>trace := tr\<rparr>) = serial_only s"
  "serial_only (s\<lparr>is_open := b\<rparr>) = serial_only s"
  "serial_only (s\<lparr>open_script := os\<rparr>) = serial_only s"
  by (simp_all add: serial_only_def)

lemma serial_only_tl [simp]:
  "serial_only s \<Longrightarrow> serial_only (s\<lparr>write_script := tl (write_script s)\<rparr>)"
  "serial_only s \<Longrightarrow> serial_only (s\<lparr>read_script := tl (read_script s)\<rparr>)"
  by (cases "write_script s"; cases "read_script s"; simp add: serial_only_def)+

lemma next_write_serial:
  "serial_only s \<Longrightarrow> next_write s d = Inl e \<Longrightarrow> is_serial_exn e"
  by (cases "write_script s") (auto simp: serial_only_def next_write_def)

lemma next_read_serial:
  "serial_only s \<Longrightarrow> next_read s n = Inl e \<Longrightarrow> is_serial_exn e"
  by (cases "read_script s") (auto simp: serial_only_def next_read_def split: sum.splits)

lemma tame_return [simp]: "tame (io_return v)"
  by (simp add: tame_def io_return_def)

lemma tame_write [simp]: "tame (ser_write d)"
  using next_write_serial
  by (auto simp: tame_def ser_write_def is_serial_exn_def)

lemma tame_read [simp]: "tame (ser_read n)"
  using next_read_serial
  by (auto simp: tame_def ser_read_def is_serial_exn_def)

lemma tame_ensure_open [simp]: "tame ensure_open"
  by (auto simp: tame_def ensure_open_def ser_open_def Let_def is_serial_exn_def)











lemma finalize_raise: "m s = (s', Inl e) \<Longrightarrow> finalize m s = (s', Inl e)"
  by (simp add: finalize_def)














end
